theory Spec2Isabelle
  imports
    Complex_Main
    "HOL-Library.Word"
    "HOL-Library.Signed_Division"
    "HOL-Library.Sublist"
    "HOL-Library.Monad_Syntax"
begin

unbundle bit_operations_syntax

section \<open>Configuration (config.def.h)\<close>

text \<open>
  The constants of \<^verbatim>\<open>config.def.h\<close> that the window-management core reads.
  \<^verbatim>\<open>LENGTH(tags)\<close> is 9, so \<^verbatim>\<open>TAGMASK = (1 << 9) - 1\<close>.
\<close>

type_synonym tagmask = "32 word"

definition ntags :: nat where
  "ntags = 9"

definition TAGMASK :: tagmask where
  "TAGMASK = push_bit ntags 1 - 1"


definition resizeHints :: bool where
  "resizeHints = True"

definition cfg_masterFactor :: rat where
  "cfg_masterFactor = 1 / 2"

definition cfg_nMaster :: int where
  "cfg_nMaster = 1"

definition cfg_showbar :: bool where
  "cfg_showbar = False"

definition cfg_topbar :: bool where
  "cfg_topbar = False"

text \<open>
  The arrange member of a \<^verbatim>\<open>Layout\<close> is a function pointer; the three functions it can
  point to are the constructors of \<open>arrange_fn\<close>, and \<open>None\<close> is the null pointer
  (floating behaviour).
\<close>

datatype arrange_fn = Dwindle | Tile | Monocle

record Layout =
  symbol :: string
  arrange :: "arrange_fn option"

definition layouts :: "Layout list" where
  "layouts =
    [\<lparr>symbol = ''D'', arrange = Some Dwindle\<rparr>,
     \<lparr>symbol = ''T'', arrange = Some Tile\<rparr>,
     \<lparr>symbol = ''F'', arrange = None\<rparr>,
     \<lparr>symbol = ''M'', arrange = Some Monocle\<rparr>]"

record Rule =
  rclass :: "string option"
  rinstance :: "string option"
  rtitle :: "string option"
  rtags :: tagmask
  risfloating :: bool
  rmonitor :: int

definition rules :: "Rule list" where
  "rules =
    [\<lparr>rclass = Some ''Gimp'', rinstance = None, rtitle = None,
      rtags = 0, risfloating = True, rmonitor = -1\<rparr>,
     \<lparr>rclass = Some ''Firefox'', rinstance = None, rtitle = None,
      rtags = push_bit 8 1, risfloating = False, rmonitor = -1\<rparr>]"

section \<open>Data model (dwm.c)\<close>

text \<open>
  Clients and monitors live in a store indexed by address; a pointer is an
  \<open>nat option\<close> with \<open>None\<close> for \<^verbatim>\<open>NULL\<close>.  The \<^verbatim>\<open>int\<close> members that only ever hold
  a truth value are booleans.  \<^verbatim>\<open>int\<close> and \<^verbatim>\<open>unsigned int\<close> quantities are
  unbounded integers: pixel arithmetic is assumed to stay inside the 32-bit range, where the
  conversions between the two are the identity on the values that occur.  The \<^verbatim>\<open>float\<close>
  members are exact rationals; no result below depends on a client with both aspect limits
  set, and the master factor only enters through the product with the window width.
  Member \<^verbatim>\<open>by\<close> of the monitor is called \<open>barY\<close>, and the monitor's \<^verbatim>\<open>next\<close> is
  \<open>nextMonitor\<close>.
\<close>

record Client =
  name :: string
  mina :: rat
  maxa :: rat
  x :: int
  y :: int
  w :: int
  h :: int
  oldx :: int
  oldy :: int
  oldw :: int
  oldh :: int
  basew :: int
  baseh :: int
  incw :: int
  inch :: int
  maxw :: int
  maxh :: int
  minw :: int
  minh :: int
  borderWidth :: int
  oldBorderWidth :: int
  tags :: tagmask
  isFixed :: bool
  isFloating :: bool
  isUrgent :: bool
  neverFocus :: bool
  oldState :: bool
  isFullscreen :: bool
  "next" :: "nat option"
  selectionNext :: "nat option"
  monitor :: nat

record Monitor =
  layoutSymbol :: string
  masterFactor :: rat
  nMaster :: int
  num :: int
  barY :: int
  monitorX :: int
  monitorY :: int
  monitorWidth :: int
  monitorHeight :: int
  windowX :: int
  windowY :: int
  windowWidth :: int
  windowHeight :: int
  selectedTags :: nat
  selectedLayout :: nat
  tagSet :: "nat \<Rightarrow> tagmask"
  showBar :: bool
  topBar :: bool
  clients :: "nat option"
  selectedClient :: "nat option"
  stack :: "nat option"
  nextMonitor :: "nat option"
  mlayouts :: "nat \<Rightarrow> Layout"

text \<open>The global variables of dwm.c that the core reads and writes.\<close>

record state =
  cl :: "nat \<Rightarrow> Client"
  mon :: "nat \<Rightarrow> Monitor"
  monitors :: "nat option"
  selectedMonitor :: nat
  screenWidth :: int
  screenHeight :: int
  barHeight :: int

definition WIDTH :: "Client \<Rightarrow> int" where
  "WIDTH c = w c + 2 * borderWidth c"

definition HEIGHT :: "Client \<Rightarrow> int" where
  "HEIGHT c = h c + 2 * borderWidth c"

definition ISVISIBLEONTAG :: "Client \<Rightarrow> tagmask \<Rightarrow> bool" where
  "ISVISIBLEONTAG c t = (tags c AND t \<noteq> 0)"

definition ISVISIBLE :: "state \<Rightarrow> nat \<Rightarrow> bool" where
  "ISVISIBLE s k =
     ISVISIBLEONTAG (cl s k)
       (tagSet (mon s (monitor (cl s k))) (selectedTags (mon s (monitor (cl s k)))))"

definition cur_layout :: "Monitor \<Rightarrow> Layout" where
  "cur_layout m = mlayouts m (selectedLayout m)"

section \<open>Size hints\<close>

text \<open>
  \<^verbatim>\<open>(int)(f + 0.5)\<close>: conversion of a float to \<^verbatim>\<open>int\<close> truncates towards zero.
\<close>

definition c_trunc :: "rat \<Rightarrow> int" where
  "c_trunc r = (if 0 \<le> r then \<lfloor>r\<rfloor> else \<lceil>r\<rceil>)"

text \<open>
  \<^verbatim>\<open>applysizehints\<close> writes through the four pointers and returns whether the result
  differs from the stored geometry; the model returns that flag with the four values.
  The function has three parts, kept apart here.  \<open>clamp_pos\<close> is the position clamp, the
  same statements on each axis: \<open>scr\<close> is the screen extent, \<open>wo\<close> and \<open>wl\<close> the origin
  and extent of the monitor's window area, \<open>cext\<close> is \<^verbatim>\<open>WIDTH(c)\<close> or \<^verbatim>\<open>HEIGHT(c)\<close>,
  \<open>p\<close> the proposed coordinate and \<open>e\<close> the proposed extent.  \<open>hint_size\<close> is the block
  guarded by \<^verbatim>\<open>resizeHints || c->isFloating || !...->arrange\<close>.
  C's \<^verbatim>\<open>%\<close> truncates towards zero (\<open>smod\<close>).
\<close>

definition clamp_pos ::
  "bool \<Rightarrow> int \<Rightarrow> int \<Rightarrow> int \<Rightarrow> int \<Rightarrow> int \<Rightarrow> int \<Rightarrow> int \<Rightarrow> int" where
  "clamp_pos interact scr wo wl cext bw p e =
     (if interact then
        (let p1 = (if p > scr then scr - cext else p)
         in if p1 + e + 2 * bw < 0 then 0 else p1)
      else
        (let p1 = (if p \<ge> wo + wl then wo + wl - cext else p)
         in if p1 + e + 2 * bw \<le> wo then wo else p1))"

definition hint_size :: "Client \<Rightarrow> int \<times> int \<Rightarrow> int \<times> int" where
  "hint_size c g =
    (case g of (pw2, ph2) \<Rightarrow>
      let baseismin = (basew c = minw c \<and> baseh c = minh c);
          pw3 = (if \<not> baseismin then pw2 - basew c else pw2);
          ph3 = (if \<not> baseismin then ph2 - baseh c else ph2);
          (pw4, ph4) =
            (if mina c > 0 \<and> maxa c > 0 then
               if maxa c < of_int pw3 / of_int ph3
               then (c_trunc (of_int ph3 * maxa c + 1 / 2), ph3)
               else if mina c < of_int ph3 / of_int pw3
               then (pw3, c_trunc (of_int pw3 * mina c + 1 / 2))
               else (pw3, ph3)
             else (pw3, ph3));
          pw5 = (if baseismin then pw4 - basew c else pw4);
          ph5 = (if baseismin then ph4 - baseh c else ph4);
          pw6 = (if incw c \<noteq> 0 then pw5 - pw5 smod incw c else pw5);
          ph6 = (if inch c \<noteq> 0 then ph5 - ph5 smod inch c else ph5);
          pw7 = max (pw6 + basew c) (minw c);
          ph7 = max (ph6 + baseh c) (minh c);
          pw8 = (if maxw c \<noteq> 0 then min pw7 (maxw c) else pw7);
          ph8 = (if maxh c \<noteq> 0 then min ph7 (maxh c) else ph7)
      in (pw8, ph8))"

definition applysizehints ::
  "state \<Rightarrow> nat \<Rightarrow> int \<times> int \<times> int \<times> int \<Rightarrow> bool \<Rightarrow> bool \<times> (int \<times> int \<times> int \<times> int)" where
  "applysizehints s k g interact =
    (case g of (px0, py0, pw0, ph0) \<Rightarrow>
      let c = cl s k;
          m = mon s (monitor c);
          pw1 = max 1 pw0;
          ph1 = max 1 ph0;
          px3 = clamp_pos interact (screenWidth s) (windowX m) (windowWidth m)
                  (WIDTH c) (borderWidth c) px0 pw1;
          py3 = clamp_pos interact (screenHeight s) (windowY m) (windowHeight m)
                  (HEIGHT c) (borderWidth c) py0 ph1;
          ph2 = (if ph1 < barHeight s then barHeight s else ph1);
          pw2 = (if pw1 < barHeight s then barHeight s else pw1);
          (pw9, ph9) =
            (if resizeHints \<or> isFloating c \<or> arrange (cur_layout m) = None
             then hint_size c (pw2, ph2) else (pw2, ph2))
      in (px3 \<noteq> x c \<or> py3 \<noteq> y c \<or> pw9 \<noteq> w c \<or> ph9 \<noteq> h c, (px3, py3, pw9, ph9)))"

text \<open>A client record with every member zero, as \<^verbatim>\<open>ecalloc\<close> returns it.\<close>

definition client0 :: Client where
  "client0 =
    \<lparr>name = [], mina = 0, maxa = 0, x = 0, y = 0, w = 0, h = 0,
     oldx = 0, oldy = 0, oldw = 0, oldh = 0,
     basew = 0, baseh = 0, incw = 0, inch = 0, maxw = 0, maxh = 0, minw = 0, minh = 0,
     borderWidth = 0, oldBorderWidth = 0, tags = 0,
     isFixed = False, isFloating = False, isUrgent = False, neverFocus = False,
     oldState = False, isFullscreen = False,
     next = None, selectionNext = None, monitor = 0\<rparr>"

definition layout0 :: Layout where
  "layout0 = \<lparr>symbol = [], arrange = None\<rparr>"

definition monitor0 :: Monitor where
  "monitor0 =
    \<lparr>layoutSymbol = [], masterFactor = 0, nMaster = 0, num = 0, barY = 0,
     monitorX = 0, monitorY = 0, monitorWidth = 0, monitorHeight = 0,
     windowX = 0, windowY = 0, windowWidth = 0, windowHeight = 0,
     selectedTags = 0, selectedLayout = 0, tagSet = (\<lambda>_. 0),
     showBar = False, topBar = False,
     clients = None, selectedClient = None, stack = None, nextMonitor = None,
     mlayouts = (\<lambda>_. layout0)\<rparr>"


definition upd_cl :: "state \<Rightarrow> nat \<Rightarrow> (Client \<Rightarrow> Client) \<Rightarrow> state" where
  "upd_cl s k f = s\<lparr>cl := (cl s)(k := f (cl s k))\<rparr>"

definition upd_mon :: "state \<Rightarrow> nat \<Rightarrow> (Monitor \<Rightarrow> Monitor) \<Rightarrow> state" where
  "upd_mon s m f = s\<lparr>mon := (mon s)(m := f (mon s m))\<rparr>"

section \<open>Client list and focus stack\<close>

text \<open>
  The loops over the linked lists follow the pointers in the store.  On a cyclic list the
  C loop does not end; the model is a partial function in the option monad, where not
  returning is \<open>None\<close>.  A returned pointer is itself an \<open>nat option\<close>.
\<close>

partial_function (option) nexttiled :: "state \<Rightarrow> nat option \<Rightarrow> nat option option" where
  "nexttiled s c =
     (case c of
        None \<Rightarrow> Some None
      | Some k \<Rightarrow>
          if isFloating (cl s k) \<or> \<not> ISVISIBLE s k then nexttiled s (next (cl s k))
          else Some (Some k))"

text \<open>The loop of \<^verbatim>\<open>nexttagged\<close>, started at \<^verbatim>\<open>c->monitor->clients\<close>.\<close>

partial_function (option) nexttagged_walk ::
  "state \<Rightarrow> nat \<Rightarrow> nat option \<Rightarrow> nat option option" where
  "nexttagged_walk s c walked =
     (case walked of
        None \<Rightarrow> Some None
      | Some k \<Rightarrow>
          if isFloating (cl s k) \<or> \<not> ISVISIBLEONTAG (cl s k) (tags (cl s c))
          then nexttagged_walk s c (next (cl s k))
          else Some (Some k))"

definition nexttagged :: "state \<Rightarrow> nat \<Rightarrow> nat option option" where
  "nexttagged s c = nexttagged_walk s c (clients (mon s (monitor (cl s c))))"

text \<open>
  The loop \<^verbatim>\<open>for (t = stack; t && !ISVISIBLE(t); t = t->selectionNext)\<close>, which
  \<^verbatim>\<open>focus\<close> and \<^verbatim>\<open>detachStack\<close> both run.
\<close>

partial_function (option) stack_visible :: "state \<Rightarrow> nat option \<Rightarrow> nat option option" where
  "stack_visible s t =
     (case t of
        None \<Rightarrow> Some None
      | Some k \<Rightarrow>
          if \<not> ISVISIBLE s k then stack_visible s (selectionNext (cl s k))
          else Some (Some k))"

definition attach :: "state \<Rightarrow> nat \<Rightarrow> state" where
  "attach s c =
     (let m = monitor (cl s c);
          s1 = upd_cl s c (\<lambda>r. r\<lparr>next := clients (mon s m)\<rparr>)
      in upd_mon s1 m (\<lambda>r. r\<lparr>clients := Some c\<rparr>))"

text \<open>The two assignments that link \<open>c\<close> behind the client \<open>a\<close>.\<close>

definition link_after :: "state \<Rightarrow> nat \<Rightarrow> nat \<Rightarrow> state" where
  "link_after s c a =
     (let s1 = upd_cl s c (\<lambda>r. r\<lparr>next := next (cl s a)\<rparr>)
      in upd_cl s1 a (\<lambda>r. r\<lparr>next := Some c\<rparr>))"

definition attachBelow :: "state \<Rightarrow> nat \<Rightarrow> state option" where
  "attachBelow s c =
     (let sel = selectedClient (mon s (monitor (cl s c)))
      in if sel = None \<or> (case sel of Some k \<Rightarrow> isFloating (cl s k) | None \<Rightarrow> False) then
           do {
             tagged \<leftarrow> nexttagged s c;
             (case tagged of
                None \<Rightarrow> Some (attach s c)
              | Some a \<Rightarrow> Some (link_after s c a))
           }
         else (case sel of Some k \<Rightarrow> Some (link_after s c k) | None \<Rightarrow> Some s))"

definition attachStack :: "state \<Rightarrow> nat \<Rightarrow> state" where
  "attachStack s c =
     (let m = monitor (cl s c);
          s1 = upd_cl s c (\<lambda>r. r\<lparr>selectionNext := stack (mon s m)\<rparr>)
      in upd_mon s1 m (\<lambda>r. r\<lparr>stack := Some c\<rparr>))"

text \<open>
  \<^verbatim>\<open>Client **tc\<close> points either at the list head of a monitor or at the link member of a
  client.
\<close>

datatype cref = HeadOf nat | LinkOf nat

definition get_next :: "state \<Rightarrow> cref \<Rightarrow> nat option" where
  "get_next s r = (case r of HeadOf m \<Rightarrow> clients (mon s m) | LinkOf k \<Rightarrow> next (cl s k))"

definition set_next :: "state \<Rightarrow> cref \<Rightarrow> nat option \<Rightarrow> state" where
  "set_next s r v =
     (case r of
        HeadOf m \<Rightarrow> upd_mon s m (\<lambda>r. r\<lparr>clients := v\<rparr>)
      | LinkOf k \<Rightarrow> upd_cl s k (\<lambda>r. r\<lparr>next := v\<rparr>))"

definition get_snext :: "state \<Rightarrow> cref \<Rightarrow> nat option" where
  "get_snext s r = (case r of HeadOf m \<Rightarrow> stack (mon s m) | LinkOf k \<Rightarrow> selectionNext (cl s k))"

definition set_snext :: "state \<Rightarrow> cref \<Rightarrow> nat option \<Rightarrow> state" where
  "set_snext s r v =
     (case r of
        HeadOf m \<Rightarrow> upd_mon s m (\<lambda>r. r\<lparr>stack := v\<rparr>)
      | LinkOf k \<Rightarrow> upd_cl s k (\<lambda>r. r\<lparr>selectionNext := v\<rparr>))"

partial_function (option) detach_scan :: "state \<Rightarrow> nat \<Rightarrow> cref \<Rightarrow> cref option" where
  "detach_scan s c tc =
     (case get_next s tc of
        None \<Rightarrow> Some tc
      | Some t \<Rightarrow> if t = c then Some tc else detach_scan s c (LinkOf t))"

definition detach :: "state \<Rightarrow> nat \<Rightarrow> state option" where
  "detach s c =
     do {
       tc \<leftarrow> detach_scan s c (HeadOf (monitor (cl s c)));
       Some (set_next s tc (next (cl s c)))
     }"

partial_function (option) detachStack_scan :: "state \<Rightarrow> nat \<Rightarrow> cref \<Rightarrow> cref option" where
  "detachStack_scan s c tc =
     (case get_snext s tc of
        None \<Rightarrow> Some tc
      | Some t \<Rightarrow> if t = c then Some tc else detachStack_scan s c (LinkOf t))"

definition detachStack :: "state \<Rightarrow> nat \<Rightarrow> state option" where
  "detachStack s c =
     do {
       tc \<leftarrow> detachStack_scan s c (HeadOf (monitor (cl s c)));
       let s1 = set_snext s tc (selectionNext (cl s c));
       let m = monitor (cl s1 c);
       if selectedClient (mon s1 m) = Some c then
         do {
           t \<leftarrow> stack_visible s1 (stack (mon s1 m));
           Some (upd_mon s1 m (\<lambda>r. r\<lparr>selectedClient := t\<rparr>))
         }
       else Some s1
     }"


section \<open>Resizing\<close>

text \<open>
  Requests to the X server (\<^verbatim>\<open>XConfigureWindow\<close>, \<^verbatim>\<open>XMoveWindow\<close>, focus, grabs,
  drawing of the bar) change no variable of the window manager and are left out.
\<close>

definition resizeclient :: "state \<Rightarrow> nat \<Rightarrow> int \<Rightarrow> int \<Rightarrow> int \<Rightarrow> int \<Rightarrow> state option" where
  "resizeclient s c px py pw ph =
     (let s1 = upd_cl s c
            (\<lambda>r. r\<lparr>oldx := x r, x := px, oldy := y r, y := py,
                   oldw := w r, w := pw, oldh := h r, h := ph\<rparr>);
          m = mon s1 (monitor (cl s1 c))
      in do {
           first \<leftarrow> nexttiled s1 (clients m);
           alone \<leftarrow> (if first = Some c
                     then do { rest \<leftarrow> nexttiled s1 (next (cl s1 c)); Some (rest = None) }
                     else Some False);
           Some (if (alone \<or> arrange (cur_layout m) = Some Monocle)
                    \<and> \<not> isFullscreen (cl s1 c) \<and> \<not> isFloating (cl s1 c)
                    \<and> arrange (cur_layout m) \<noteq> None
                 then upd_cl s1 c
                        (\<lambda>r. r\<lparr>w := w r + borderWidth r * 2, h := h r + borderWidth r * 2\<rparr>)
                 else s1)
         })"

definition resize :: "state \<Rightarrow> nat \<Rightarrow> int \<Rightarrow> int \<Rightarrow> int \<Rightarrow> int \<Rightarrow> bool \<Rightarrow> state option" where
  "resize s c px py pw ph interact =
     (case applysizehints s c (px, py, pw, ph) interact of
        (changed, (qx, qy, qw, qh)) \<Rightarrow>
          if changed then resizeclient s c qx qy qw qh else Some s)"

partial_function (option) showhide :: "state \<Rightarrow> nat option \<Rightarrow> state option" where
  "showhide s c =
     (case c of
        None \<Rightarrow> Some s
      | Some k \<Rightarrow>
          if ISVISIBLE s k then
            do {
              s1 \<leftarrow> (if (arrange (cur_layout (mon s (monitor (cl s k)))) = None
                          \<or> isFloating (cl s k)) \<and> \<not> isFullscreen (cl s k)
                     then resize s k (x (cl s k)) (y (cl s k)) (w (cl s k)) (h (cl s k)) False
                     else Some s);
              showhide s1 (selectionNext (cl s1 k))
            }
          else showhide s (selectionNext (cl s k)))"

section \<open>Layouts\<close>

text \<open>
  The counting loop \<^verbatim>\<open>for (n = 0, c = nexttiled(m->clients); c; c = nexttiled(c->next), n++)\<close>
  of \<^verbatim>\<open>tile\<close> and \<^verbatim>\<open>dwindle\<close>; \<open>c\<close> is the current value of the loop variable.
\<close>

partial_function (option) count_tiled :: "state \<Rightarrow> nat option \<Rightarrow> int \<Rightarrow> int option" where
  "count_tiled s c n =
     (case c of
        None \<Rightarrow> Some n
      | Some k \<Rightarrow> do { c' \<leftarrow> nexttiled s (next (cl s k)); count_tiled s c' (n + 1) })"

partial_function (option) tile_loop ::
  "state \<Rightarrow> nat \<Rightarrow> int \<Rightarrow> int \<Rightarrow> nat option \<Rightarrow> int \<Rightarrow> int \<Rightarrow> int \<Rightarrow> state option" where
  "tile_loop s m n mw c i my ty =
     (case c of
        None \<Rightarrow> Some s
      | Some k \<Rightarrow>
          if i < nMaster (mon s m) then
            do {
              let th = (windowHeight (mon s m) - my) div (min n (nMaster (mon s m)) - i);
              s1 \<leftarrow> resize s k (windowX (mon s m)) (windowY (mon s m) + my)
                      (mw - 2 * borderWidth (cl s k)) (th - 2 * borderWidth (cl s k)) False;
              let my' = (if my + HEIGHT (cl s1 k) < windowHeight (mon s1 m)
                         then my + HEIGHT (cl s1 k) else my);
              c' \<leftarrow> nexttiled s1 (next (cl s1 k));
              tile_loop s1 m n mw c' (i + 1) my' ty
            }
          else
            do {
              let th = (windowHeight (mon s m) - ty) div (n - i);
              s1 \<leftarrow> resize s k (windowX (mon s m) + mw) (windowY (mon s m) + ty)
                      (windowWidth (mon s m) - mw - 2 * borderWidth (cl s k))
                      (th - 2 * borderWidth (cl s k)) False;
              let ty' = (if ty + HEIGHT (cl s1 k) < windowHeight (mon s1 m)
                         then ty + HEIGHT (cl s1 k) else ty);
              c' \<leftarrow> nexttiled s1 (next (cl s1 k));
              tile_loop s1 m n mw c' (i + 1) my ty'
            })"

definition tile :: "state \<Rightarrow> nat \<Rightarrow> state option" where
  "tile s m =
     do {
       c0 \<leftarrow> nexttiled s (clients (mon s m));
       n \<leftarrow> count_tiled s c0 0;
       if n = 0 then Some s
       else
         let mw = (if n > nMaster (mon s m)
                   then (if nMaster (mon s m) \<noteq> 0
                         then c_trunc (of_int (windowWidth (mon s m)) * masterFactor (mon s m))
                         else 0)
                   else windowWidth (mon s m))
         in tile_loop s m n mw c0 0 0 0
     }"

text \<open>
  The body of the loop of \<^verbatim>\<open>dwindle\<close> before the call of \<^verbatim>\<open>resize\<close>: the new values of
  \<open>(i, nx, ny, nw, nh)\<close> for a client of border width \<open>bw\<close>, on a monitor \<open>mm\<close> with \<open>n\<close>
  tiled clients.
\<close>

definition dwindle_step ::
  "Monitor \<Rightarrow> int \<Rightarrow> int \<Rightarrow> int \<times> int \<times> int \<times> int \<times> int \<Rightarrow> int \<times> int \<times> int \<times> int \<times> int" where
  "dwindle_step mm n bw v =
     (case v of (i, nx, ny, nw, nh) \<Rightarrow>
        if (i mod 2 \<noteq> 0 \<and> nh div 2 > 2 * bw) \<or> (i mod 2 = 0 \<and> nw div 2 > 2 * bw) then
          let (nw1, nh1) =
                (if i < n - 1
                 then (if i mod 2 \<noteq> 0 then (nw, nh div 2) else (nw div 2, nh))
                 else (nw, nh));
              (nx2, ny2) =
                (if i mod 4 = 0 then (nx, ny + nh1)
                 else if i mod 4 = 1 then (nx + nw1, ny)
                 else if i mod 4 = 2 then (nx, ny + nh1)
                 else (nx + nw1, ny));
              (nw3, ny3) =
                (if i = 0
                 then ((if n \<noteq> 1
                        then c_trunc (of_int (windowWidth mm) * masterFactor mm)
                        else nw1),
                       windowY mm)
                 else if i = 1 then (windowWidth mm - nw1, ny2)
                 else (nw1, ny2))
          in (i + 1, nx2, ny3, nw3, nh1)
        else (i, nx, ny, nw, nh))"

partial_function (option) dwindle_loop ::
  "state \<Rightarrow> nat \<Rightarrow> int \<Rightarrow> nat option \<Rightarrow> int \<times> int \<times> int \<times> int \<times> int \<Rightarrow> state option" where
  "dwindle_loop s m n c v =
     (case c of
        None \<Rightarrow> Some s
      | Some k \<Rightarrow>
          (case dwindle_step (mon s m) n (borderWidth (cl s k)) v of
             (i, nx, ny, nw, nh) \<Rightarrow>
               do {
                 s1 \<leftarrow> resize s k nx ny (nw - 2 * borderWidth (cl s k))
                         (nh - 2 * borderWidth (cl s k)) False;
                 c' \<leftarrow> nexttiled s1 (next (cl s1 k));
                 dwindle_loop s1 m n c' (i, nx, ny, nw, nh)
               }))"

definition dwindle :: "state \<Rightarrow> nat \<Rightarrow> state option" where
  "dwindle s m =
     do {
       c0 \<leftarrow> nexttiled s (clients (mon s m));
       n \<leftarrow> count_tiled s c0 0;
       if n = 0 then Some s
       else dwindle_loop s m n c0
              (0, windowX (mon s m), 0, windowWidth (mon s m), windowHeight (mon s m))
     }"

text \<open>\<^verbatim>\<open>for (c = m->clients; c; c = c->next) if (ISVISIBLE(c)) n++;\<close> of \<^verbatim>\<open>monocle\<close>.\<close>

partial_function (option) count_visible :: "state \<Rightarrow> nat option \<Rightarrow> nat \<Rightarrow> nat option" where
  "count_visible s c n =
     (case c of
        None \<Rightarrow> Some n
      | Some k \<Rightarrow> count_visible s (next (cl s k)) (if ISVISIBLE s k then n + 1 else n))"

text \<open>The decimal digits that \<^verbatim>\<open>%d\<close> prints for a count.\<close>

fun dec :: "nat \<Rightarrow> string" where
  "dec n = (if n < 10 then [char_of (48 + n)] else dec (n div 10) @ [char_of (48 + n mod 10)])"

declare dec.simps [simp del]

partial_function (option) monocle_loop :: "state \<Rightarrow> nat \<Rightarrow> nat option \<Rightarrow> state option" where
  "monocle_loop s m c =
     (case c of
        None \<Rightarrow> Some s
      | Some k \<Rightarrow>
          do {
            s1 \<leftarrow> resize s k (windowX (mon s m)) (windowY (mon s m))
                    (windowWidth (mon s m) - 2 * borderWidth (cl s k))
                    (windowHeight (mon s m) - 2 * borderWidth (cl s k)) False;
            c' \<leftarrow> nexttiled s1 (next (cl s1 k));
            monocle_loop s1 m c'
          })"

definition monocle :: "state \<Rightarrow> nat \<Rightarrow> state option" where
  "monocle s m =
     do {
       n \<leftarrow> count_visible s (clients (mon s m)) 0;
       let s1 = (if n > 0
                 then upd_mon s m (\<lambda>r. r\<lparr>layoutSymbol := take 15 (''['' @ dec n @ '']'')\<rparr>)
                 else s);
       c0 \<leftarrow> nexttiled s1 (clients (mon s1 m));
       monocle_loop s1 m c0
     }"

definition arrangemon :: "state \<Rightarrow> nat \<Rightarrow> state option" where
  "arrangemon s m =
     (let s1 = upd_mon s m (\<lambda>r. r\<lparr>layoutSymbol := take 16 (symbol (cur_layout r))\<rparr>)
      in case arrange (cur_layout (mon s1 m)) of
           None \<Rightarrow> Some s1
         | Some Dwindle \<Rightarrow> dwindle s1 m
         | Some Tile \<Rightarrow> tile s1 m
         | Some Monocle \<Rightarrow> monocle s1 m)"

partial_function (option) showhide_all :: "state \<Rightarrow> nat option \<Rightarrow> state option" where
  "showhide_all s m =
     (case m of
        None \<Rightarrow> Some s
      | Some k \<Rightarrow> do { s1 \<leftarrow> showhide s (stack (mon s k)); showhide_all s1 (nextMonitor (mon s1 k)) })"

partial_function (option) arrangemon_all :: "state \<Rightarrow> nat option \<Rightarrow> state option" where
  "arrangemon_all s m =
     (case m of
        None \<Rightarrow> Some s
      | Some k \<Rightarrow> do { s1 \<leftarrow> arrangemon s k; arrangemon_all s1 (nextMonitor (mon s1 k)) })"

text \<open>\<^verbatim>\<open>arrange\<close>; \<^verbatim>\<open>restack\<close> only talks to the X server.\<close>

definition arrange_layout :: "state \<Rightarrow> nat option \<Rightarrow> state option" where
  "arrange_layout s m =
     (case m of
        Some k \<Rightarrow> do { s1 \<leftarrow> showhide s (stack (mon s k)); arrangemon s1 k }
      | None \<Rightarrow> do { s1 \<leftarrow> showhide_all s (monitors s); arrangemon_all s1 (monitors s1) })"

section \<open>Focus\<close>

text \<open>
  \<^verbatim>\<open>focus\<close>; \<open>focus_client\<close> is the block run when a target exists.  \<^verbatim>\<open>unfocus\<close> and the
  other calls only talk to the X server.
\<close>

definition focus_client :: "state \<Rightarrow> nat \<Rightarrow> state option" where
  "focus_client s k =
     (let s1 = (if monitor (cl s k) \<noteq> selectedMonitor s
                then s\<lparr>selectedMonitor := monitor (cl s k)\<rparr> else s);
          s2 = (if isUrgent (cl s1 k)
                then upd_cl s1 k (\<lambda>r. r\<lparr>isUrgent := False\<rparr>) else s1)
      in do {
           s3 \<leftarrow> detachStack s2 k;
           let s4 = attachStack s3 k;
           Some (upd_mon s4 (selectedMonitor s4) (\<lambda>r. r\<lparr>selectedClient := Some k\<rparr>))
         })"

definition focus :: "state \<Rightarrow> nat option \<Rightarrow> state option" where
  "focus s c =
     do {
       client \<leftarrow> (if c = None \<or> (case c of Some k \<Rightarrow> \<not> ISVISIBLE s k | None \<Rightarrow> False)
                  then stack_visible s (stack (mon s (selectedMonitor s)))
                  else Some c);
       (case client of
          Some k \<Rightarrow> focus_client s k
        | None \<Rightarrow> Some (upd_mon s (selectedMonitor s) (\<lambda>r. r\<lparr>selectedClient := None\<rparr>)))
     }"

text \<open>\<^verbatim>\<open>unmanage\<close>; the freed client record stays in the store, unreachable.\<close>

definition unmanage :: "state \<Rightarrow> nat \<Rightarrow> state option" where
  "unmanage s c =
     (let m = monitor (cl s c)
      in do {
           s1 \<leftarrow> detach s c;
           s2 \<leftarrow> detachStack s1 c;
           s3 \<leftarrow> focus s2 None;
           arrange_layout s3 (Some m)
         })"

definition sendmon :: "state \<Rightarrow> nat \<Rightarrow> nat \<Rightarrow> state option" where
  "sendmon s c m =
     (if monitor (cl s c) = m then Some s
      else do {
        s1 \<leftarrow> detach s c;
        s2 \<leftarrow> detachStack s1 c;
        let s3 = upd_cl s2 c (\<lambda>r. r\<lparr>monitor := m\<rparr>);
        let s4 = upd_cl s3 c (\<lambda>r. r\<lparr>tags := tagSet (mon s3 m) (selectedTags (mon s3 m))\<rparr>);
        s5 \<leftarrow> attachBelow s4 c;
        let s6 = attachStack s5 c;
        s7 \<leftarrow> focus s6 None;
        arrange_layout s7 None
      })"


section \<open>Tags, views, floating and fullscreen\<close>


definition toggletag :: "state \<Rightarrow> tagmask \<Rightarrow> state option" where
  "toggletag s ui =
     (case selectedClient (mon s (selectedMonitor s)) of
        None \<Rightarrow> Some s
      | Some k \<Rightarrow>
          let newtags = tags (cl s k) XOR (ui AND TAGMASK)
          in if newtags \<noteq> 0 then
               do {
                 s1 \<leftarrow> focus (upd_cl s k (\<lambda>r. r\<lparr>tags := newtags\<rparr>)) None;
                 arrange_layout s1 (Some (selectedMonitor s1))
               }
             else Some s)"

definition tag :: "state \<Rightarrow> tagmask \<Rightarrow> state option" where
  "tag s ui =
     (case selectedClient (mon s (selectedMonitor s)) of
        None \<Rightarrow> Some s
      | Some k \<Rightarrow>
          if ui AND TAGMASK \<noteq> 0 then
            do {
              s1 \<leftarrow> focus (upd_cl s k (\<lambda>r. r\<lparr>tags := ui AND TAGMASK\<rparr>)) None;
              arrange_layout s1 (Some (selectedMonitor s1))
            }
          else Some s)"

definition toggleview :: "state \<Rightarrow> tagmask \<Rightarrow> state option" where
  "toggleview s ui =
     (let m = selectedMonitor s;
          newtagset = tagSet (mon s m) (selectedTags (mon s m)) XOR (ui AND TAGMASK)
      in if newtagset \<noteq> 0 then
           do {
             s1 \<leftarrow> focus (upd_mon s m
                      (\<lambda>r. r\<lparr>tagSet := (tagSet r)(selectedTags r := newtagset)\<rparr>)) None;
             arrange_layout s1 (Some (selectedMonitor s1))
           }
         else Some s)"

definition view :: "state \<Rightarrow> tagmask \<Rightarrow> state option" where
  "view s ui =
     (let m = selectedMonitor s
      in if ui AND TAGMASK = tagSet (mon s m) (selectedTags (mon s m)) then Some s
         else
           let s1 = upd_mon s m (\<lambda>r. r\<lparr>selectedTags := selectedTags r XOR 1\<rparr>);
               s2 = (if ui AND TAGMASK \<noteq> 0
                     then upd_mon s1 m
                            (\<lambda>r. r\<lparr>tagSet := (tagSet r)(selectedTags r := ui AND TAGMASK)\<rparr>)
                     else s1)
           in do {
                s3 \<leftarrow> focus s2 None;
                arrange_layout s3 (Some (selectedMonitor s3))
              })"

definition createMonitor :: Monitor where
  "createMonitor =
     monitor0
       \<lparr>layoutSymbol := take 16 (symbol (layouts ! 0)),
        masterFactor := cfg_masterFactor,
        nMaster := cfg_nMaster,
        tagSet := (\<lambda>_. 0)(0 := 1, 1 := 1),
        showBar := cfg_showbar,
        topBar := cfg_topbar,
        mlayouts := (\<lambda>_. layout0)(0 := layouts ! 0, 1 := layouts ! (1 mod length layouts))\<rparr>"




section \<open>Rules\<close>

text \<open>
  \<^verbatim>\<open>strstr(a, b)\<close> is non-null when \<open>b\<close> is a contiguous part of \<open>a\<close>.  The class hint
  read from the X server is an input; a missing member is \<^verbatim>\<open>broken\<close>.
\<close>

definition broken :: string where
  "broken = ''broken''"

partial_function (option) monitor_by_num :: "state \<Rightarrow> nat option \<Rightarrow> int \<Rightarrow> nat option option" where
  "monitor_by_num s m n =
     (case m of
        None \<Rightarrow> Some None
      | Some k \<Rightarrow> if num (mon s k) \<noteq> n then monitor_by_num s (nextMonitor (mon s k)) n
                  else Some (Some k))"

definition rule_matches :: "Rule \<Rightarrow> string \<Rightarrow> string \<Rightarrow> string \<Rightarrow> bool" where
  "rule_matches r title class inst =
     ((case rtitle r of None \<Rightarrow> True | Some t \<Rightarrow> sublist t title)
      \<and> (case rclass r of None \<Rightarrow> True | Some t \<Rightarrow> sublist t class)
      \<and> (case rinstance r of None \<Rightarrow> True | Some t \<Rightarrow> sublist t inst))"

fun applyrules_loop :: "Rule list \<Rightarrow> string \<Rightarrow> string \<Rightarrow> state \<Rightarrow> nat \<Rightarrow> state option" where
  "applyrules_loop [] class inst s c = Some s"
| "applyrules_loop (r # rs) class inst s c =
     (if rule_matches r (name (cl s c)) class inst then
        do {
          let s1 = upd_cl s c (\<lambda>q. q\<lparr>isFloating := risfloating r\<rparr>);
          let s2 = upd_cl s1 c (\<lambda>q. q\<lparr>tags := tags q OR rtags r\<rparr>);
          m \<leftarrow> monitor_by_num s2 (monitors s2) (rmonitor r);
          let s3 = (case m of Some k \<Rightarrow> upd_cl s2 c (\<lambda>q. q\<lparr>monitor := k\<rparr>) | None \<Rightarrow> s2);
          applyrules_loop rs class inst s3 c
        }
      else applyrules_loop rs class inst s c)"

definition applyrules :: "state \<Rightarrow> nat \<Rightarrow> string option \<Rightarrow> string option \<Rightarrow> state option" where
  "applyrules s c res_class res_name =
     (let s1 = upd_cl s c (\<lambda>q. q\<lparr>isFloating := False, tags := 0\<rparr>);
          class = (case res_class of Some t \<Rightarrow> t | None \<Rightarrow> broken);
          inst = (case res_name of Some t \<Rightarrow> t | None \<Rightarrow> broken)
      in do {
           s2 \<leftarrow> applyrules_loop rules class inst s1 c;
           Some (upd_cl s2 c
             (\<lambda>q. q\<lparr>tags :=
                (if tags q AND TAGMASK \<noteq> 0 then tags q AND TAGMASK
                 else tagSet (mon s2 (monitor q)) (selectedTags (mon s2 (monitor q))))\<rparr>))
         })"

section \<open>Moving with the mouse\<close>



section \<open>Monitor reconciliation\<close>

record XineramaScreenInfo =
  x_org :: int
  y_org :: int
  width :: int
  height :: int


definition updatebarpos :: "state \<Rightarrow> nat \<Rightarrow> state" where
  "updatebarpos s m =
     (let s1 = upd_mon s m (\<lambda>r. r\<lparr>windowY := monitorY r, windowHeight := monitorHeight r\<rparr>)
      in if showBar (mon s1 m) then
           upd_mon s1 m
             (\<lambda>r. r\<lparr>windowHeight := windowHeight r - barHeight s,
                    barY := (if topBar r then windowY r
                             else windowY r + (windowHeight r - barHeight s)),
                    windowY := (if topBar r then windowY r + barHeight s else windowY r)\<rparr>)
         else upd_mon s1 m (\<lambda>r. r\<lparr>barY := - barHeight s\<rparr>))"

partial_function (option) count_monitors :: "state \<Rightarrow> nat option \<Rightarrow> nat \<Rightarrow> nat option" where
  "count_monitors s m n =
     (case m of None \<Rightarrow> Some n | Some k \<Rightarrow> count_monitors s (nextMonitor (mon s k)) (n + 1))"

text \<open>\<^verbatim>\<open>for (m = monitors; m && m->next; m = m->next);\<close>\<close>

partial_function (option) last_monitor :: "state \<Rightarrow> nat option \<Rightarrow> nat option option" where
  "last_monitor s m =
     (case m of
        None \<Rightarrow> Some None
      | Some k \<Rightarrow> if nextMonitor (mon s k) \<noteq> None then last_monitor s (nextMonitor (mon s k))
                  else Some (Some k))"


partial_function (option) update_geoms ::
  "XineramaScreenInfo list \<Rightarrow> nat \<Rightarrow> state \<Rightarrow> nat \<Rightarrow> nat option \<Rightarrow> bool \<Rightarrow> (state \<times> bool) option" where
  "update_geoms unique n s i m dirty =
     (case m of
        None \<Rightarrow> Some (s, dirty)
      | Some k \<Rightarrow>
          if i < length unique then
            (let u = unique ! i
             in if i \<ge> n \<or> x_org u \<noteq> monitorX (mon s k) \<or> y_org u \<noteq> monitorY (mon s k)
                   \<or> width u \<noteq> monitorWidth (mon s k) \<or> height u \<noteq> monitorHeight (mon s k)
                then
                  let s1 = upd_mon s k
                        (\<lambda>r. r\<lparr>num := int i,
                               monitorX := x_org u, windowX := x_org u,
                               monitorY := y_org u, windowY := y_org u,
                               monitorWidth := width u, windowWidth := width u,
                               monitorHeight := height u, windowHeight := height u\<rparr>);
                      s2 = updatebarpos s1 k
                  in update_geoms unique n s2 (i + 1) (nextMonitor (mon s2 k)) True
                else update_geoms unique n s (i + 1) (nextMonitor (mon s k)) dirty)
          else Some (s, dirty))"

text \<open>
  \<^verbatim>\<open>while ((c = m->clients)) { ... }\<close> in the branch \<^verbatim>\<open>nn < n\<close>.  Dereferencing a null
  \<^verbatim>\<open>monitors\<close> does not return either.
\<close>

partial_function (option) migrate_clients :: "state \<Rightarrow> nat \<Rightarrow> bool \<Rightarrow> (state \<times> bool) option" where
  "migrate_clients s m dirty =
     (case clients (mon s m) of
        None \<Rightarrow> Some (s, dirty)
      | Some c \<Rightarrow>
          (case monitors s of
             None \<Rightarrow> None
           | Some m0 \<Rightarrow>
               do {
                 let s1 = upd_mon s m (\<lambda>r. r\<lparr>clients := next (cl s c)\<rparr>);
                 s2 \<leftarrow> detachStack s1 c;
                 let s3 = upd_cl s2 c (\<lambda>r. r\<lparr>monitor := m0\<rparr>);
                 let s4 = attach s3 c;
                 s5 \<leftarrow> attachBelow s4 c;
                 let s6 = attachStack s5 c;
                 migrate_clients s6 m True
               }))"

text \<open>\<^verbatim>\<open>for (m = monitors; m && m->next != mon; m = m->next);\<close>\<close>

partial_function (option) monitor_before :: "state \<Rightarrow> nat option \<Rightarrow> nat \<Rightarrow> nat option option" where
  "monitor_before s m target =
     (case m of
        None \<Rightarrow> Some None
      | Some k \<Rightarrow> if nextMonitor (mon s k) \<noteq> Some target
                  then monitor_before s (nextMonitor (mon s k)) target
                  else Some (Some k))"



definition INTERSECT :: "int \<Rightarrow> int \<Rightarrow> int \<Rightarrow> int \<Rightarrow> Monitor \<Rightarrow> int" where
  "INTERSECT px py pw ph m =
     max 0 (min (px + pw) (windowX m + windowWidth m) - max px (windowX m))
     * max 0 (min (py + ph) (windowY m + windowHeight m) - max py (windowY m))"

partial_function (option) rectangleToMonitor_loop ::
  "state \<Rightarrow> int \<times> int \<times> int \<times> int \<Rightarrow> nat option \<Rightarrow> int \<Rightarrow> nat \<Rightarrow> nat option" where
  "rectangleToMonitor_loop s g m area r =
     (case m of
        None \<Rightarrow> Some r
      | Some k \<Rightarrow>
          (case g of (px, py, pw, ph) \<Rightarrow>
             let a = INTERSECT px py pw ph (mon s k)
             in if a > area then rectangleToMonitor_loop s g (nextMonitor (mon s k)) a k
                else rectangleToMonitor_loop s g (nextMonitor (mon s k)) area r))"




text \<open>The unfolding equations of the loops are the code equations used for evaluation.\<close>

declare nexttiled.simps [code] nexttagged_walk.simps [code] stack_visible.simps [code]
  detach_scan.simps [code] detachStack_scan.simps [code] showhide.simps [code]
  count_tiled.simps [code] tile_loop.simps [code] dwindle_loop.simps [code]
  count_visible.simps [code] monocle_loop.simps [code] showhide_all.simps [code]
  arrangemon_all.simps [code] monitor_by_num.simps [code] count_monitors.simps [code]
  last_monitor.simps [code] update_geoms.simps [code] migrate_clients.simps [code]
  monitor_before.simps [code] rectangleToMonitor_loop.simps [code]

section \<open>Example states\<close>





section \<open>Frame of the arrangement\<close>

text \<open>
  \<open>geom_only s s'\<close>: the state \<open>s'\<close> differs from \<open>s\<close> at most in the geometry members
  of clients and in the layout symbols of monitors.
\<close>

definition strip_geom :: "Client \<Rightarrow> Client" where
  "strip_geom c = c\<lparr>x := 0, y := 0, w := 0, h := 0, oldx := 0, oldy := 0, oldw := 0, oldh := 0\<rparr>"

definition strip_symbol :: "Monitor \<Rightarrow> Monitor" where
  "strip_symbol m = m\<lparr>layoutSymbol := []\<rparr>"

definition geom_only :: "state \<Rightarrow> state \<Rightarrow> bool" where
  "geom_only s s' \<longleftrightarrow>
     (\<forall>k. strip_geom (cl s' k) = strip_geom (cl s k))
     \<and> (\<forall>m. strip_symbol (mon s' m) = strip_symbol (mon s m))
     \<and> monitors s' = monitors s \<and> selectedMonitor s' = selectedMonitor s
     \<and> screenWidth s' = screenWidth s \<and> screenHeight s' = screenHeight s
     \<and> barHeight s' = barHeight s"

section \<open>Tag invariants\<close>

text \<open>A tag mask is valid when it is nonzero and has no bit outside \<^verbatim>\<open>TAGMASK\<close>.\<close>

definition tagmask_ok :: "tagmask \<Rightarrow> bool" where
  "tagmask_ok t \<longleftrightarrow> t \<noteq> 0 \<and> t AND TAGMASK = t"

definition tagsets_ok :: "Monitor \<Rightarrow> bool" where
  "tagsets_ok m \<longleftrightarrow> selectedTags m < 2 \<and> tagmask_ok (tagSet m 0) \<and> tagmask_ok (tagSet m 1)"

text \<open>\<open>tags_same s s'\<close>: no client's tags and no monitor's tag sets differ between the states.\<close>

definition tags_same :: "state \<Rightarrow> state \<Rightarrow> bool" where
  "tags_same s s' \<longleftrightarrow>
     (\<forall>k. tags (cl s' k) = tags (cl s k))
     \<and> (\<forall>m. tagSet (mon s' m) = tagSet (mon s m)
            \<and> selectedTags (mon s' m) = selectedTags (mon s m))"

text \<open>
  One monitor of 1000 by 800 pixels in the tile layout, showing tag 1, with the tiled
  clients 0 and 1 (border width 1, no size hints) on tag 1; the client list and the stack
  are 0, 1 and client 0 is selected.
\<close>

definition ex_state :: state where
  "ex_state =
    \<lparr>cl = (\<lambda>_. client0)
       (0 := client0\<lparr>x := 0, y := 0, w := 498, h := 798, borderWidth := 1, tags := 1,
                    next := Some 1, selectionNext := Some 1\<rparr>,
        1 := client0\<lparr>x := 500, y := 0, w := 498, h := 798, borderWidth := 1, tags := 1\<rparr>),
     mon = (\<lambda>_. createMonitor
       \<lparr>selectedLayout := 1,
        monitorWidth := 1000, monitorHeight := 800,
        windowWidth := 1000, windowHeight := 800,
        clients := Some 0, selectedClient := Some 0, stack := Some 0\<rparr>),
     monitors = Some 0, selectedMonitor = 0,
     screenWidth = 1000, screenHeight = 800, barHeight = 20\<rparr>"

section \<open>Lists in the store\<close>

text \<open>
  \<open>lpath f p ks\<close>: following the link member \<open>f\<close> from the pointer \<open>p\<close> visits exactly the
  addresses \<open>ks\<close> and then reaches \<^verbatim>\<open>NULL\<close>.  \<open>cnext\<close> is the link of the client lists and
  \<open>snext\<close> the link of the focus stacks.
\<close>

fun lpath :: "(nat \<Rightarrow> nat option) \<Rightarrow> nat option \<Rightarrow> nat list \<Rightarrow> bool" where
  "lpath f p [] = (p = None)"
| "lpath f p (k # ks) = (p = Some k \<and> lpath f (f k) ks)"

definition cnext :: "state \<Rightarrow> nat \<Rightarrow> nat option" where
  "cnext s k = next (cl s k)"

definition snext :: "state \<Rightarrow> nat \<Rightarrow> nat option" where
  "snext s k = selectionNext (cl s k)"

text \<open>The pointer \<open>tc\<close> is not the link member of a client in \<open>ks\<close>.\<close>

definition tc_fresh :: "cref \<Rightarrow> nat list \<Rightarrow> bool" where
  "tc_fresh tc ks = (case tc of LinkOf p \<Rightarrow> p \<notin> set ks | HeadOf m \<Rightarrow> True)"

text \<open>
  Clients 1, 2 and 3 on one monitor that shows tag 1: the client list is 2, 1, 3 and the
  stack is 3, 1, 2; clients 1 and 2 are on tag 1 and client 3 is on tag 2, hence not
  visible.  Client 3 is the selected client.
\<close>

definition c5_state :: state where
  "c5_state =
    \<lparr>cl = (\<lambda>_. client0)
       (1 := client0\<lparr>w := 498, h := 398, borderWidth := 1, tags := 1,
                    next := Some 3, selectionNext := Some 2\<rparr>,
        2 := client0\<lparr>w := 498, h := 798, borderWidth := 1, tags := 1,
                    next := Some 1, selectionNext := None\<rparr>,
        3 := client0\<lparr>w := 498, h := 398, borderWidth := 1, tags := 2,
                    next := None, selectionNext := Some 1\<rparr>),
     mon = (\<lambda>_. createMonitor
       \<lparr>selectedLayout := 1,
        monitorWidth := 1000, monitorHeight := 800,
        windowWidth := 1000, windowHeight := 800,
        clients := Some 2, selectedClient := Some 3, stack := Some 3\<rparr>),
     monitors = Some 0, selectedMonitor = 0,
     screenWidth = 1000, screenHeight = 800, barHeight = 20\<rparr>"

section \<open>Clients that an arrangement leaves in place\<close>



section \<open>Fullscreen round trip\<close>





section \<open>Properties\<close>

subsection \<open>Size hints\<close>











subsection \<open>Monitor reconciliation\<close>



subsection \<open>Resizing changes geometry only\<close>

lemma geom_only_refl: "geom_only s s"
  by (simp add: geom_only_def)

lemma geom_only_trans: "geom_only s s1 \<Longrightarrow> geom_only s1 s2 \<Longrightarrow> geom_only s s2"
  by (simp add: geom_only_def)

lemma strip_geom_fields:
  assumes "strip_geom a = strip_geom b"
  shows "tags a = tags b" "isFloating a = isFloating b" "isFullscreen a = isFullscreen b" "borderWidth a = borderWidth b" "oldBorderWidth a = oldBorderWidth b" "oldState a = oldState b" "isFixed a = isFixed b" "isUrgent a = isUrgent b" "neverFocus a = neverFocus b" "next a = next b" "selectionNext a = selectionNext b" "monitor a = monitor b" "basew a = basew b" "baseh a = baseh b" "incw a = incw b" "inch a = inch b" "maxw a = maxw b" "maxh a = maxh b" "minw a = minw b" "minh a = minh b" "mina a = mina b" "maxa a = maxa b" "name a = name b"
proof -
  have e: "\<And>f. f (strip_geom a) = f (strip_geom b)" using assms by simp
  show "tags a = tags b" using e[of tags] by (simp add: strip_geom_def)
  show "isFloating a = isFloating b" using e[of isFloating] by (simp add: strip_geom_def)
  show "isFullscreen a = isFullscreen b" using e[of isFullscreen] by (simp add: strip_geom_def)
  show "borderWidth a = borderWidth b" using e[of borderWidth] by (simp add: strip_geom_def)
  show "oldBorderWidth a = oldBorderWidth b" using e[of oldBorderWidth] by (simp add: strip_geom_def)
  show "oldState a = oldState b" using e[of oldState] by (simp add: strip_geom_def)
  show "isFixed a = isFixed b" using e[of isFixed] by (simp add: strip_geom_def)
  show "isUrgent a = isUrgent b" using e[of isUrgent] by (simp add: strip_geom_def)
  show "neverFocus a = neverFocus b" using e[of neverFocus] by (simp add: strip_geom_def)
  show "next a = next b" using e[of "next"] by (simp add: strip_geom_def)
  show "selectionNext a = selectionNext b" using e[of selectionNext] by (simp add: strip_geom_def)
  show "monitor a = monitor b" using e[of monitor] by (simp add: strip_geom_def)
  show "basew a = basew b" using e[of basew] by (simp add: strip_geom_def)
  show "baseh a = baseh b" using e[of baseh] by (simp add: strip_geom_def)
  show "incw a = incw b" using e[of incw] by (simp add: strip_geom_def)
  show "inch a = inch b" using e[of inch] by (simp add: strip_geom_def)
  show "maxw a = maxw b" using e[of maxw] by (simp add: strip_geom_def)
  show "maxh a = maxh b" using e[of maxh] by (simp add: strip_geom_def)
  show "minw a = minw b" using e[of minw] by (simp add: strip_geom_def)
  show "minh a = minh b" using e[of minh] by (simp add: strip_geom_def)
  show "mina a = mina b" using e[of mina] by (simp add: strip_geom_def)
  show "maxa a = maxa b" using e[of maxa] by (simp add: strip_geom_def)
  show "name a = name b" using e[of name] by (simp add: strip_geom_def)
qed

lemma strip_symbol_fields:
  assumes "strip_symbol a = strip_symbol b"
  shows "tagSet a = tagSet b" "selectedTags a = selectedTags b" "selectedLayout a = selectedLayout b" "mlayouts a = mlayouts b" "clients a = clients b" "stack a = stack b" "selectedClient a = selectedClient b" "nextMonitor a = nextMonitor b" "nMaster a = nMaster b" "masterFactor a = masterFactor b" "windowX a = windowX b" "windowY a = windowY b" "windowWidth a = windowWidth b" "windowHeight a = windowHeight b" "monitorX a = monitorX b" "monitorY a = monitorY b" "monitorWidth a = monitorWidth b" "monitorHeight a = monitorHeight b" "num a = num b" "barY a = barY b" "showBar a = showBar b" "topBar a = topBar b"
proof -
  have e: "\<And>f. f (strip_symbol a) = f (strip_symbol b)" using assms by simp
  show "tagSet a = tagSet b" using e[of tagSet] by (simp add: strip_symbol_def)
  show "selectedTags a = selectedTags b" using e[of selectedTags] by (simp add: strip_symbol_def)
  show "selectedLayout a = selectedLayout b" using e[of selectedLayout] by (simp add: strip_symbol_def)
  show "mlayouts a = mlayouts b" using e[of mlayouts] by (simp add: strip_symbol_def)
  show "clients a = clients b" using e[of clients] by (simp add: strip_symbol_def)
  show "stack a = stack b" using e[of stack] by (simp add: strip_symbol_def)
  show "selectedClient a = selectedClient b" using e[of selectedClient] by (simp add: strip_symbol_def)
  show "nextMonitor a = nextMonitor b" using e[of nextMonitor] by (simp add: strip_symbol_def)
  show "nMaster a = nMaster b" using e[of nMaster] by (simp add: strip_symbol_def)
  show "masterFactor a = masterFactor b" using e[of masterFactor] by (simp add: strip_symbol_def)
  show "windowX a = windowX b" using e[of windowX] by (simp add: strip_symbol_def)
  show "windowY a = windowY b" using e[of windowY] by (simp add: strip_symbol_def)
  show "windowWidth a = windowWidth b" using e[of windowWidth] by (simp add: strip_symbol_def)
  show "windowHeight a = windowHeight b" using e[of windowHeight] by (simp add: strip_symbol_def)
  show "monitorX a = monitorX b" using e[of monitorX] by (simp add: strip_symbol_def)
  show "monitorY a = monitorY b" using e[of monitorY] by (simp add: strip_symbol_def)
  show "monitorWidth a = monitorWidth b" using e[of monitorWidth] by (simp add: strip_symbol_def)
  show "monitorHeight a = monitorHeight b" using e[of monitorHeight] by (simp add: strip_symbol_def)
  show "num a = num b" using e[of num] by (simp add: strip_symbol_def)
  show "barY a = barY b" using e[of barY] by (simp add: strip_symbol_def)
  show "showBar a = showBar b" using e[of showBar] by (simp add: strip_symbol_def)
  show "topBar a = topBar b" using e[of topBar] by (simp add: strip_symbol_def)
qed

lemma geom_only_cl:
  "geom_only s s' \<Longrightarrow> strip_geom (cl s' k) = strip_geom (cl s k)"
  by (simp add: geom_only_def)

lemma geom_only_mon:
  "geom_only s s' \<Longrightarrow> strip_symbol (mon s' m) = strip_symbol (mon s m)"
  by (simp add: geom_only_def)


lemma geom_only_upd_geom:
  "strip_geom (f (cl s k)) = strip_geom (cl s k) \<Longrightarrow> geom_only s (upd_cl s k f)"
  by (simp add: geom_only_def upd_cl_def)

lemma geom_only_upd_geom2:
  "strip_geom (f (cl s k)) = strip_geom (cl s k) \<Longrightarrow>
   strip_geom (g (f (cl s k))) = strip_geom (cl s k) \<Longrightarrow> geom_only s (upd_cl (upd_cl s k f) k g)"
  by (simp add: geom_only_def upd_cl_def)

lemma Some_if_eq: "(Some (if b then u else v) = Some r) = (if b then r = u else r = v)"
  by auto

lemma resizeclient_geom_only:
  assumes "resizeclient s c px py pw ph = Some s'"
  shows "geom_only s s'"
proof -
  let ?f = "\<lambda>r. r\<lparr>oldx := x r, x := px, oldy := y r, y := py,
                   oldw := w r, w := pw, oldh := h r, h := ph\<rparr>"
  let ?g = "\<lambda>r. r\<lparr>w := w r + borderWidth r * 2, h := h r + borderWidth r * 2\<rparr>"
  have f: "geom_only s (upd_cl s c ?f)"
    by (simp add: geom_only_def upd_cl_def strip_geom_def)
  have g: "geom_only s (upd_cl (upd_cl s c ?f) c ?g)"
    by (simp add: geom_only_def upd_cl_def strip_geom_def)
  from assms have "s' = upd_cl s c ?f \<or> s' = upd_cl (upd_cl s c ?f) c ?g"
    unfolding resizeclient_def Let_def bind_eq_Some_conv Some_if_eq
    by (elim exE conjE) (auto split: if_splits)
  then show ?thesis
    using f g by blast
qed

lemma resize_geom_only:
  assumes "resize s c px py pw ph i = Some s'"
  shows "geom_only s s'"
proof (cases "applysizehints s c (px, py, pw, ph) i")
  case (fields changed qx qy qw qh)
  show ?thesis
  proof (cases changed)
    case True
    with assms fields have "resizeclient s c qx qy qw qh = Some s'"
      by (simp add: resize_def)
    then show ?thesis by (rule resizeclient_geom_only)
  next
    case False
    with assms fields have "s' = s" by (simp add: resize_def)
    then show ?thesis by (simp add: geom_only_refl)
  qed
qed

lemmas geom_only_cl_fields = strip_geom_fields[OF geom_only_cl]
lemmas geom_only_mon_fields = strip_symbol_fields[OF geom_only_mon]

subsection \<open>Arranging changes geometry and layout symbols only\<close>

lemma geom_only_step:
  "geom_only s s1 \<Longrightarrow> (\<And>c b y. f c b = Some y \<Longrightarrow> geom_only c y) \<Longrightarrow> f s1 b = Some s2
   \<Longrightarrow> geom_only s s2"
  by (blast intro: geom_only_trans)

lemma showhide_geom_only:
  assumes "showhide s c = Some s'"
  shows "geom_only s s'"
proof (rule showhide.raw_induct[where P = "\<lambda>s c s'. geom_only s s'", OF _ assms])
  fix sh :: "state \<Rightarrow> nat option \<Rightarrow> state option" and s c sa
  assume IH: "\<And>c b y. sh c b = Some y \<Longrightarrow> geom_only c y"
    and body: "(case c of None \<Rightarrow> Some s
      | Some k \<Rightarrow>
          if ISVISIBLE s k
          then (if (arrange (cur_layout (mon s (monitor (cl s k)))) = None \<or>
                    isFloating (cl s k)) \<and> \<not> isFullscreen (cl s k)
                then resize s k (x (cl s k)) (y (cl s k)) (w (cl s k)) (h (cl s k)) False
                else Some s) \<bind>
               (\<lambda>s1. sh s1 (selectionNext (cl s1 k)))
          else sh s (selectionNext (cl s k))) = Some sa"
  show "geom_only s sa"
  proof (cases c)
    case None
    with body show ?thesis by (simp add: geom_only_refl)
  next
    case (Some k)
    show ?thesis
    proof (cases "ISVISIBLE s k")
      case False
      with body Some show ?thesis by (simp add: IH)
    next
      case True
      with body Some obtain s1 where
        a: "(if (arrange (cur_layout (mon s (monitor (cl s k)))) = None \<or>
                    isFloating (cl s k)) \<and> \<not> isFullscreen (cl s k)
             then resize s k (x (cl s k)) (y (cl s k)) (w (cl s k)) (h (cl s k)) False
             else Some s) = Some s1"
        and b: "sh s1 (selectionNext (cl s1 k)) = Some sa"
        by (auto simp: bind_eq_Some_conv)
      from a have "geom_only s s1"
        by (auto split: if_splits intro: resize_geom_only geom_only_refl)
      from this IH[OF b] show ?thesis by (rule geom_only_trans)
    qed
  qed
qed

lemma tile_loop_geom_only:
  assumes "tile_loop s m n mw c i my ty = Some s'"
  shows "geom_only s s'"
proof (rule tile_loop.raw_induct
    [where P = "\<lambda>s m n mw c i my ty s'. geom_only s s'", OF _ assms])
  fix tl :: "state \<Rightarrow> nat \<Rightarrow> int \<Rightarrow> int \<Rightarrow> nat option \<Rightarrow> int \<Rightarrow> int \<Rightarrow> int \<Rightarrow> state option"
    and s m n mw c i my ty sa
  assume IH: "\<And>m n mw c i my ty b y. tl m n mw c i my ty b = Some y \<Longrightarrow> geom_only m y"
  assume body: "(case c of None \<Rightarrow> Some s
      | Some k \<Rightarrow>
          if i < nMaster (mon s m)
          then let th = (windowHeight (mon s m) - my) div (min n (nMaster (mon s m)) - i)
               in resize s k (windowX (mon s m)) (windowY (mon s m) + my)
                   (mw - 2 * borderWidth (cl s k)) (th - 2 * borderWidth (cl s k)) False \<bind>
                  (\<lambda>s1. let my' = if my + HEIGHT (cl s1 k) < windowHeight (mon s1 m)
                              then my + HEIGHT (cl s1 k) else my
                        in nexttiled s1 (next (cl s1 k)) \<bind>
                           (\<lambda>c'. tl s1 m n mw c' (i + 1) my' ty))
          else let th = (windowHeight (mon s m) - ty) div (n - i)
               in resize s k (windowX (mon s m) + mw) (windowY (mon s m) + ty)
                   (windowWidth (mon s m) - mw - 2 * borderWidth (cl s k))
                   (th - 2 * borderWidth (cl s k)) False \<bind>
                  (\<lambda>s1. let ty' = if ty + HEIGHT (cl s1 k) < windowHeight (mon s1 m)
                              then ty + HEIGHT (cl s1 k) else ty
                        in nexttiled s1 (next (cl s1 k)) \<bind>
                           (\<lambda>c'. tl s1 m n mw c' (i + 1) my ty'))) = Some sa"
  show "geom_only s sa"
  proof (cases c)
    case None
    with body show ?thesis by (simp add: geom_only_refl)
  next
    case (Some k)
    from body Some obtain s1 px py pw ph c' i' my' ty' where
      a: "resize s k px py pw ph False = Some s1"
      and b: "tl s1 m n mw c' i' my' ty' = Some sa"
      by (auto simp: bind_eq_Some_conv Let_def split: if_splits)
    from resize_geom_only[OF a] IH[OF b] show ?thesis by (rule geom_only_trans)
  qed
qed

lemma dwindle_loop_geom_only:
  assumes "dwindle_loop s m n c v = Some s'"
  shows "geom_only s s'"
proof (rule dwindle_loop.raw_induct
    [where P = "\<lambda>s m n c v s'. geom_only s s'", OF _ assms])
  fix dl :: "state \<Rightarrow> nat \<Rightarrow> int \<Rightarrow> nat option \<Rightarrow> int \<times> int \<times> int \<times> int \<times> int \<Rightarrow> state option"
    and s m n c v sa
  assume IH: "\<And>m n c v b y. dl m n c v b = Some y \<Longrightarrow> geom_only m y"
  assume body: "(case c of None \<Rightarrow> Some s
      | Some k \<Rightarrow>
          (case dwindle_step (mon s m) n (borderWidth (cl s k)) v of
             (i, nx, ny, nw, nh) \<Rightarrow>
               resize s k nx ny (nw - 2 * borderWidth (cl s k))
                 (nh - 2 * borderWidth (cl s k)) False \<bind>
               (\<lambda>s1. nexttiled s1 (next (cl s1 k)) \<bind>
                  (\<lambda>c'. dl s1 m n c' (i, nx, ny, nw, nh))))) = Some sa"
  show "geom_only s sa"
  proof (cases c)
    case None
    with body show ?thesis by (simp add: geom_only_refl)
  next
    case (Some k)
    from body Some obtain s1 px py pw ph c' v' where
      a: "resize s k px py pw ph False = Some s1"
      and b: "dl s1 m n c' v' = Some sa"
      by (auto simp: bind_eq_Some_conv split: prod.splits)
    from resize_geom_only[OF a] IH[OF b] show ?thesis by (rule geom_only_trans)
  qed
qed

lemma monocle_loop_geom_only:
  assumes "monocle_loop s m c = Some s'"
  shows "geom_only s s'"
proof (rule monocle_loop.raw_induct
    [where P = "\<lambda>s m c s'. geom_only s s'", OF _ assms])
  fix ml :: "state \<Rightarrow> nat \<Rightarrow> nat option \<Rightarrow> state option" and s m c sa
  assume IH: "\<And>m c b y. ml m c b = Some y \<Longrightarrow> geom_only m y"
  assume body: "(case c of None \<Rightarrow> Some s
      | Some k \<Rightarrow>
          resize s k (windowX (mon s m)) (windowY (mon s m))
            (windowWidth (mon s m) - 2 * borderWidth (cl s k))
            (windowHeight (mon s m) - 2 * borderWidth (cl s k)) False \<bind>
          (\<lambda>s1. nexttiled s1 (next (cl s1 k)) \<bind> ml s1 m)) = Some sa"
  show "geom_only s sa"
  proof (cases c)
    case None
    with body show ?thesis by (simp add: geom_only_refl)
  next
    case (Some k)
    from body Some obtain s1 px py pw ph c' where
      a: "resize s k px py pw ph False = Some s1"
      and b: "ml s1 m c' = Some sa"
      by (auto simp: bind_eq_Some_conv)
    from resize_geom_only[OF a] IH[OF b] show ?thesis by (rule geom_only_trans)
  qed
qed

lemma geom_only_symbol: "geom_only s (upd_mon s m (\<lambda>r. r\<lparr>layoutSymbol := t r\<rparr>))"
  by (simp add: geom_only_def upd_mon_def strip_symbol_def)

lemma tile_geom_only: "tile s m = Some s' \<Longrightarrow> geom_only s s'"
  unfolding tile_def
  by (auto simp: bind_eq_Some_conv Let_def split: if_splits
      intro: geom_only_refl tile_loop_geom_only)

lemma dwindle_geom_only: "dwindle s m = Some s' \<Longrightarrow> geom_only s s'"
  unfolding dwindle_def
  by (auto simp: bind_eq_Some_conv split: if_splits
      intro: geom_only_refl dwindle_loop_geom_only)

lemma monocle_geom_only:
  assumes "monocle s m = Some s'"
  shows "geom_only s s'"
proof -
  from assms obtain s1 c0 where
    a: "s1 = s \<or> (\<exists>t. s1 = upd_mon s m (\<lambda>r. r\<lparr>layoutSymbol := t\<rparr>))"
    and b: "monocle_loop s1 m c0 = Some s'"
    unfolding monocle_def by (auto simp: bind_eq_Some_conv Let_def split: if_splits)
  from a have "geom_only s s1"
    by (auto intro: geom_only_refl geom_only_symbol)
  from this monocle_loop_geom_only[OF b] show ?thesis by (rule geom_only_trans)
qed

lemma arrangemon_geom_only:
  assumes "arrangemon s m = Some s'"
  shows "geom_only s s'"
proof -
  let ?s1 = "upd_mon s m (\<lambda>r. r\<lparr>layoutSymbol := take 16 (symbol (cur_layout r))\<rparr>)"
  have g: "geom_only s ?s1" by (rule geom_only_symbol)
  from assms have "geom_only ?s1 s'"
    unfolding arrangemon_def Let_def
    by (auto split: option.splits arrange_fn.splits
        intro: geom_only_refl tile_geom_only dwindle_geom_only monocle_geom_only)
  from g this show ?thesis by (rule geom_only_trans)
qed

lemma showhide_all_geom_only:
  assumes "showhide_all s m = Some s'"
  shows "geom_only s s'"
proof (rule showhide_all.raw_induct[where P = "\<lambda>s m s'. geom_only s s'", OF _ assms])
  fix sa :: "state \<Rightarrow> nat option \<Rightarrow> state option" and s m r
  assume IH: "\<And>c b y. sa c b = Some y \<Longrightarrow> geom_only c y"
  assume body: "(case m of None \<Rightarrow> Some s
      | Some k \<Rightarrow> showhide s (stack (mon s k)) \<bind>
          (\<lambda>s1. sa s1 (nextMonitor (mon s1 k)))) = Some r"
  show "geom_only s r"
  proof (cases m)
    case None
    with body show ?thesis by (simp add: geom_only_refl)
  next
    case (Some k)
    from body Some obtain s1 where
      a: "showhide s (stack (mon s k)) = Some s1"
      and b: "sa s1 (nextMonitor (mon s1 k)) = Some r"
      by (auto simp: bind_eq_Some_conv)
    from showhide_geom_only[OF a] IH[OF b] show ?thesis by (rule geom_only_trans)
  qed
qed

lemma arrangemon_all_geom_only:
  assumes "arrangemon_all s m = Some s'"
  shows "geom_only s s'"
proof (rule arrangemon_all.raw_induct[where P = "\<lambda>s m s'. geom_only s s'", OF _ assms])
  fix sa :: "state \<Rightarrow> nat option \<Rightarrow> state option" and s m r
  assume IH: "\<And>c b y. sa c b = Some y \<Longrightarrow> geom_only c y"
  assume body: "(case m of None \<Rightarrow> Some s
      | Some k \<Rightarrow> arrangemon s k \<bind>
          (\<lambda>s1. sa s1 (nextMonitor (mon s1 k)))) = Some r"
  show "geom_only s r"
  proof (cases m)
    case None
    with body show ?thesis by (simp add: geom_only_refl)
  next
    case (Some k)
    from body Some obtain s1 where
      a: "arrangemon s k = Some s1"
      and b: "sa s1 (nextMonitor (mon s1 k)) = Some r"
      by (auto simp: bind_eq_Some_conv)
    from arrangemon_geom_only[OF a] IH[OF b] show ?thesis by (rule geom_only_trans)
  qed
qed

lemma arrange_layout_geom_only:
  assumes "arrange_layout s m = Some s'"
  shows "geom_only s s'"
proof (cases m)
  case None
  with assms obtain s1 where a: "showhide_all s (monitors s) = Some s1"
    and b: "arrangemon_all s1 (monitors s1) = Some s'"
    by (auto simp: arrange_layout_def bind_eq_Some_conv)
  from showhide_all_geom_only[OF a] arrangemon_all_geom_only[OF b]
  show ?thesis by (rule geom_only_trans)
next
  case (Some k)
  with assms obtain s1 where a: "showhide s (stack (mon s k)) = Some s1"
    and b: "arrangemon s1 k = Some s'"
    by (auto simp: arrange_layout_def bind_eq_Some_conv)
  from showhide_geom_only[OF a] arrangemon_geom_only[OF b]
  show ?thesis by (rule geom_only_trans)
qed

subsection \<open>Focus and arrangement leave tags alone\<close>

lemma tags_same_refl: "tags_same s s"
  by (simp add: tags_same_def)

lemma tags_same_trans: "tags_same s s1 \<Longrightarrow> tags_same s1 s2 \<Longrightarrow> tags_same s s2"
  by (simp add: tags_same_def)

lemma tags_same_upd_cl:
  "tags (f (cl s k)) = tags (cl s k) \<Longrightarrow> tags_same s (upd_cl s k f)"
  by (simp add: tags_same_def upd_cl_def)

lemma tags_same_upd_mon:
  "tagSet (f (mon s m)) = tagSet (mon s m) \<Longrightarrow>
   selectedTags (f (mon s m)) = selectedTags (mon s m) \<Longrightarrow> tags_same s (upd_mon s m f)"
  by (simp add: tags_same_def upd_mon_def)

lemma tags_same_selmon: "tags_same s (s\<lparr>selectedMonitor := v\<rparr>)"
  by (simp add: tags_same_def)

lemma tags_same_set_snext: "tags_same s (set_snext s r v)"
  by (cases r) (simp_all add: set_snext_def tags_same_upd_cl tags_same_upd_mon)

lemma tags_same_set_next: "tags_same s (set_next s r v)"
  by (cases r) (simp_all add: set_next_def tags_same_upd_cl tags_same_upd_mon)

lemma geom_only_tags_same: "geom_only s s' \<Longrightarrow> tags_same s s'"
  by (simp add: tags_same_def geom_only_cl_fields geom_only_mon_fields)

lemma arrange_layout_tags_same: "arrange_layout s m = Some s' \<Longrightarrow> tags_same s s'"
  by (rule geom_only_tags_same) (rule arrange_layout_geom_only)

lemma detachStack_tags_same:
  assumes "detachStack s c = Some s'"
  shows "tags_same s s'"
proof -
  from assms obtain tc where
    "s' = set_snext s tc (selectionNext (cl s c))
     \<or> (\<exists>m t. s' = upd_mon (set_snext s tc (selectionNext (cl s c))) m
                    (\<lambda>r. r\<lparr>selectedClient := t\<rparr>))"
    unfolding detachStack_def Let_def
    by (auto simp: bind_eq_Some_conv split: if_splits)
  then show ?thesis
    by (auto intro!: tags_same_set_snext
        tags_same_trans[OF tags_same_set_snext tags_same_upd_mon])
qed

lemma detach_tags_same: "detach s c = Some s' \<Longrightarrow> tags_same s s'"
  unfolding detach_def by (auto simp: bind_eq_Some_conv intro: tags_same_set_next)

lemma attachStack_tags_same: "tags_same s (attachStack s c)"
  unfolding attachStack_def Let_def
  by (rule tags_same_trans[OF tags_same_upd_cl tags_same_upd_mon]) simp_all

lemma attach_tags_same: "tags_same s (attach s c)"
  unfolding attach_def Let_def
  by (rule tags_same_trans[OF tags_same_upd_cl tags_same_upd_mon]) simp_all

lemma link_after_tags_same: "tags_same s (link_after s c a)"
  unfolding link_after_def Let_def
  by (rule tags_same_trans[OF tags_same_upd_cl tags_same_upd_cl]) simp_all

lemma attachBelow_tags_same: "attachBelow s c = Some s' \<Longrightarrow> tags_same s s'"
  unfolding attachBelow_def Let_def
  by (auto simp: bind_eq_Some_conv tags_same_refl attach_tags_same link_after_tags_same
      split: if_splits option.splits)

lemma focus_client_tags_same:
  assumes "focus_client s k = Some s'"
  shows "tags_same s s'"
proof -
  let ?s1 = "if monitor (cl s k) \<noteq> selectedMonitor s
             then s\<lparr>selectedMonitor := monitor (cl s k)\<rparr> else s"
  let ?s2 = "if isUrgent (cl ?s1 k) then upd_cl ?s1 k (\<lambda>r. r\<lparr>isUrgent := False\<rparr>) else ?s1"
  from assms obtain s3 where d: "detachStack ?s2 k = Some s3"
    and e: "s' = upd_mon (attachStack s3 k) (selectedMonitor (attachStack s3 k))
                   (\<lambda>r. r\<lparr>selectedClient := Some k\<rparr>)"
    unfolding focus_client_def Let_def
    by (auto simp only: bind_eq_Some_conv option.inject)
  have a: "tags_same s ?s1" by (simp add: tags_same_selmon tags_same_refl)
  have b: "tags_same ?s1 ?s2" by (simp add: tags_same_upd_cl tags_same_refl)
  have c: "tags_same s3 s'" unfolding e
    by (rule tags_same_trans[OF attachStack_tags_same tags_same_upd_mon]) simp_all
  from a b detachStack_tags_same[OF d] c show ?thesis
    by (blast intro: tags_same_trans)
qed

lemma focus_tags_same:
  assumes "focus s c = Some s'"
  shows "tags_same s s'"
proof -
  from assms obtain client where
    r: "(case client of Some k \<Rightarrow> focus_client s k
         | None \<Rightarrow> Some (upd_mon s (selectedMonitor s) (\<lambda>r. r\<lparr>selectedClient := None\<rparr>)))
        = Some s'"
    unfolding focus_def by (auto simp only: bind_eq_Some_conv)
  show ?thesis
  proof (cases client)
    case None
    with r show ?thesis by (auto intro: tags_same_upd_mon)
  next
    case (Some k)
    with r show ?thesis by (simp add: focus_client_tags_same)
  qed
qed

subsection \<open>Tag masks and tag sets\<close>

lemma tagmask_ok_masked: "ui AND TAGMASK \<noteq> 0 \<Longrightarrow> tagmask_ok (ui AND TAGMASK)"
  by (simp add: tagmask_ok_def and.assoc)

lemma tagmask_ok_xor:
  assumes "tagmask_ok t" "t XOR (ui AND TAGMASK) \<noteq> 0"
  shows "tagmask_ok (t XOR (ui AND TAGMASK))"
proof -
  from assms(1) have "t AND TAGMASK = t" by (simp add: tagmask_ok_def)
  then have "(t XOR (ui AND TAGMASK)) AND TAGMASK = t XOR (ui AND TAGMASK)"
    by (metis bit.conj_xor_distrib2 and.right_idem)
  with assms(2) show ?thesis by (simp add: tagmask_ok_def)
qed

lemma xor_one_less_two: "(n::nat) < 2 \<Longrightarrow> n XOR 1 < 2"
proof -
  assume "n < 2"
  then have "n = 0 \<or> n = 1" by auto
  then show ?thesis by auto
qed

lemma tagsets_ok_current: "tagsets_ok m \<Longrightarrow> tagmask_ok (tagSet m (selectedTags m))"
proof -
  assume a: "tagsets_ok m"
  then have "selectedTags m = 0 \<or> selectedTags m = 1" by (auto simp: tagsets_ok_def)
  with a show ?thesis by (auto simp: tagsets_ok_def)
qed

lemma tags_same_tagsets_ok:
  "tags_same s s' \<Longrightarrow> tagsets_ok (mon s' k) = tagsets_ok (mon s k)"
  by (simp add: tags_same_def tagsets_ok_def)

lemma tags_same_tags: "tags_same s s' \<Longrightarrow> tags (cl s' k) = tags (cl s k)"
  by (simp add: tags_same_def)

lemma focus_arrange_tags_same:
  assumes "focus s c \<bind> (\<lambda>s1. arrange_layout s1 (Some (selectedMonitor s1))) = Some s'"
  shows "tags_same s s'"
proof -
  from assms obtain s1 where a: "focus s c = Some s1"
    and b: "arrange_layout s1 (Some (selectedMonitor s1)) = Some s'"
    by (auto simp only: bind_eq_Some_conv)
  from focus_tags_same[OF a] arrange_layout_tags_same[OF b] show ?thesis
    by (rule tags_same_trans)
qed

lemma createMonitor_tagsets_ok: "tagsets_ok createMonitor"
  by (simp add: tagsets_ok_def tagmask_ok_def createMonitor_def monitor0_def TAGMASK_def
      ntags_def)

lemma toggleview_rejected:
  assumes "tagSet (mon s (selectedMonitor s)) (selectedTags (mon s (selectedMonitor s)))
             XOR (ui AND TAGMASK) = 0"
  shows "toggleview s ui = Some s"
  using assms by (simp add: toggleview_def Let_def)

lemma toggleview_tagsets_ok:
  assumes ok: "tagsets_ok (mon s k)" and r: "toggleview s ui = Some s'"
  shows "tagsets_ok (mon s' k)"
proof -
  let ?m = "selectedMonitor s"
  let ?n = "tagSet (mon s ?m) (selectedTags (mon s ?m)) XOR (ui AND TAGMASK)"
  let ?s1 = "upd_mon s ?m (\<lambda>r. r\<lparr>tagSet := (tagSet r)(selectedTags r := ?n)\<rparr>)"
  show ?thesis
  proof (cases "?n = 0")
    case True
    with r ok show ?thesis by (simp add: toggleview_def Let_def)
  next
    case False
    with r have "focus ?s1 None \<bind> (\<lambda>s1. arrange_layout s1 (Some (selectedMonitor s1))) = Some s'"
      by (simp add: toggleview_def Let_def)
    then have t: "tags_same ?s1 s'" by (rule focus_arrange_tags_same)
    have "tagsets_ok (mon ?s1 k)"
    proof (cases "k = ?m")
      case False
      with ok show ?thesis by (simp add: upd_mon_def)
    next
      case True
      from ok True have c: "tagmask_ok (tagSet (mon s ?m) (selectedTags (mon s ?m)))"
        by (simp add: tagsets_ok_current)
      from tagmask_ok_xor[OF c \<open>?n \<noteq> 0\<close>] ok True show ?thesis
        by (auto simp: upd_mon_def tagsets_ok_def)
    qed
    with tags_same_tagsets_ok[OF t] show ?thesis by simp
  qed
qed

lemma view_tagsets_ok:
  assumes ok: "tagsets_ok (mon s k)" and r: "view s ui = Some s'"
  shows "tagsets_ok (mon s' k)"
proof -
  let ?m = "selectedMonitor s"
  let ?s1 = "upd_mon s ?m (\<lambda>r. r\<lparr>selectedTags := selectedTags r XOR 1\<rparr>)"
  let ?s2 = "if ui AND TAGMASK \<noteq> 0
             then upd_mon ?s1 ?m (\<lambda>r. r\<lparr>tagSet := (tagSet r)(selectedTags r := ui AND TAGMASK)\<rparr>)
             else ?s1"
  show ?thesis
  proof (cases "ui AND TAGMASK = tagSet (mon s ?m) (selectedTags (mon s ?m))")
    case True
    with r ok show ?thesis by (simp add: view_def Let_def)
  next
    case False
    with r have "focus ?s2 None \<bind> (\<lambda>s1. arrange_layout s1 (Some (selectedMonitor s1))) = Some s'"
      by (cases "ui AND TAGMASK = 0"; simp add: view_def Let_def)
    then have t: "tags_same ?s2 s'" by (rule focus_arrange_tags_same)
    have "tagsets_ok (mon ?s2 k)"
    proof (cases "k = ?m")
      case False
      with ok show ?thesis by (simp add: upd_mon_def)
    next
      case True
      from ok True have "selectedTags (mon s ?m) < 2"
        by (simp add: tagsets_ok_def)
      then have "selectedTags (mon s ?m) XOR 1 < 2"
        by (rule xor_one_less_two)
      then have "selectedTags (mon s ?m) XOR 1 = 0 \<or> selectedTags (mon s ?m) XOR 1 = 1"
        by auto
      with ok True show ?thesis
        by (auto simp: upd_mon_def tagsets_ok_def tagmask_ok_masked)
    qed
    with tags_same_tagsets_ok[OF t] show ?thesis by simp
  qed
qed

lemma view_zero_keeps_tagsets:
  assumes z: "ui AND TAGMASK = 0" and r: "view s ui = Some s'"
  shows "tagSet (mon s' k) = tagSet (mon s k)"
proof -
  let ?m = "selectedMonitor s"
  let ?s1 = "upd_mon s ?m (\<lambda>r. r\<lparr>selectedTags := selectedTags r XOR 1\<rparr>)"
  show ?thesis
  proof (cases "ui AND TAGMASK = tagSet (mon s ?m) (selectedTags (mon s ?m))")
    case True
    with r show ?thesis by (simp add: view_def Let_def)
  next
    case False
    with r z have "focus ?s1 None \<bind> (\<lambda>s1. arrange_layout s1 (Some (selectedMonitor s1))) = Some s'"
      by (simp add: view_def Let_def)
    then have "tags_same ?s1 s'" by (rule focus_arrange_tags_same)
    then have "tagSet (mon s' k) = tagSet (mon ?s1 k)" by (simp add: tags_same_def)
    then show ?thesis by (simp add: upd_mon_def)
  qed
qed

text \<open>
  C10: a monitor is created with both tag-set slots equal to 1 (a valid mask); while both
  slots of a monitor hold valid masks and the slot index is 0 or 1, the viewed tag set is
  nonzero; \<^verbatim>\<open>view\<close> and \<^verbatim>\<open>toggleview\<close> keep the slots of every monitor valid; a
  \<^verbatim>\<open>view\<close> argument without valid bits writes no tag set (it only switches the slot);
  and \<^verbatim>\<open>toggleview\<close> with bits whose toggling would empty the viewed tag set returns the
  state unchanged.
\<close>

theorem viewed_tagset_nonzero:
  "tagsets_ok createMonitor
   \<and> tagSet createMonitor 0 = 1 \<and> tagSet createMonitor 1 = 1
   \<and> (tagsets_ok m \<longrightarrow> tagSet m (selectedTags m) \<noteq> 0)
   \<and> (tagsets_ok (mon s k) \<longrightarrow> view s ui = Some s1 \<longrightarrow> tagsets_ok (mon s1 k))
   \<and> (ui AND TAGMASK = 0 \<longrightarrow> view s ui = Some s1 \<longrightarrow> tagSet (mon s1 k) = tagSet (mon s k))
   \<and> (tagsets_ok (mon s k) \<longrightarrow> toggleview s ui = Some s2 \<longrightarrow> tagsets_ok (mon s2 k))
   \<and> (tagSet (mon s (selectedMonitor s)) (selectedTags (mon s (selectedMonitor s)))
         XOR (ui AND TAGMASK) = 0 \<longrightarrow> toggleview s ui = Some s)"
proof -
  have a: "tagsets_ok m \<longrightarrow> tagSet m (selectedTags m) \<noteq> 0"
    using tagsets_ok_current[of m] by (auto simp: tagmask_ok_def)
  have b: "tagSet createMonitor 0 = 1 \<and> tagSet createMonitor 1 = 1"
    by (simp add: createMonitor_def monitor0_def)
  show ?thesis
    using a b createMonitor_tagsets_ok view_tagsets_ok[of s k ui s1]
      view_zero_keeps_tagsets[of ui s s1 k] toggleview_tagsets_ok[of s k ui s2]
      toggleview_rejected[of s ui]
    by blast
qed

lemma ex_view: "case view ex_state 2 of
    Some s' \<Rightarrow> tagSet (mon s' 0) (selectedTags (mon s' 0)) = 2 \<and> selectedTags (mon s' 0) = 1
              \<and> selectedClient (mon s' 0) = None
  | None \<Rightarrow> False"
  by code_simp

lemma ex_toggleview: "case toggleview ex_state 3 of
    Some s' \<Rightarrow> tagSet (mon s' 0) (selectedTags (mon s' 0)) = 2
  | None \<Rightarrow> False"
  by code_simp

lemma ex_tagsets_ok: "tagsets_ok (mon ex_state k)"
  by (simp add: ex_state_def tagsets_ok_def tagmask_ok_def createMonitor_def monitor0_def
      TAGMASK_def ntags_def)

theorem viewed_tagset_nonzero_witness:
  "tagsets_ok (mon ex_state 0)
   \<and> (\<exists>s1. view ex_state 2 = Some s1 \<and> tagsets_ok (mon s1 0)
          \<and> tagSet (mon s1 0) (selectedTags (mon s1 0)) = 2)
   \<and> (\<exists>s2. toggleview ex_state 3 = Some s2 \<and> tagsets_ok (mon s2 0)
          \<and> tagSet (mon s2 0) (selectedTags (mon s2 0)) = 2)
   \<and> toggleview ex_state 1 = Some ex_state"
proof -
  obtain s1 where v: "view ex_state 2 = Some s1"
    and v2: "tagSet (mon s1 0) (selectedTags (mon s1 0)) = 2"
    using ex_view by (auto split: option.splits)
  obtain s2 where t: "toggleview ex_state 3 = Some s2"
    and t2: "tagSet (mon s2 0) (selectedTags (mon s2 0)) = 2"
    using ex_toggleview by (auto split: option.splits)
  have z: "tagSet (mon ex_state (selectedMonitor ex_state))
             (selectedTags (mon ex_state (selectedMonitor ex_state))) XOR (1 AND TAGMASK) = 0"
    by (simp add: ex_state_def createMonitor_def monitor0_def TAGMASK_def ntags_def)
  from viewed_tagset_nonzero[of _ ex_state 0 2 s1 s2] ex_tagsets_ok[of 0] v
  have p1: "tagsets_ok (mon s1 0)" by blast
  from viewed_tagset_nonzero[of _ ex_state 0 3 s1 s2] ex_tagsets_ok[of 0] t
  have p2: "tagsets_ok (mon s2 0)" by blast
  from viewed_tagset_nonzero[of _ ex_state 0 1 s1 s2] z
  have p3: "toggleview ex_state 1 = Some ex_state" by blast
  from v v2 t t2 p1 p2 p3 ex_tagsets_ok[of 0] show ?thesis by blast
qed

subsection \<open>Client tags\<close>

lemma toggletag_noop:
  assumes "selectedClient (mon s (selectedMonitor s)) = Some k"
    "tags (cl s k) XOR (ui AND TAGMASK) = 0"
  shows "toggletag s ui = Some s"
  using assms by (simp add: toggletag_def Let_def)

lemma toggletag_tagmask_ok:
  assumes ok: "tagmask_ok (tags (cl s c))" and r: "toggletag s ui = Some s'"
  shows "tagmask_ok (tags (cl s' c))"
proof (cases "selectedClient (mon s (selectedMonitor s))")
  case None
  with r ok show ?thesis by (simp add: toggletag_def)
next
  case (Some k)
  let ?n = "tags (cl s k) XOR (ui AND TAGMASK)"
  let ?s1 = "upd_cl s k (\<lambda>r. r\<lparr>tags := ?n\<rparr>)"
  show ?thesis
  proof (cases "?n = 0")
    case True
    with r ok Some show ?thesis by (simp add: toggletag_def Let_def)
  next
    case False
    with r Some have
      "focus ?s1 None \<bind> (\<lambda>s1. arrange_layout s1 (Some (selectedMonitor s1))) = Some s'"
      by (simp add: toggletag_def Let_def)
    then have t: "tags (cl s' c) = tags (cl ?s1 c)"
      by (rule tags_same_tags[OF focus_arrange_tags_same])
    show ?thesis
    proof (cases "c = k")
      case True
      with ok have "tagmask_ok ?n" using False by (simp add: tagmask_ok_xor)
      with t True show ?thesis by (simp add: upd_cl_def)
    next
      case False
      with t ok show ?thesis by (simp add: upd_cl_def)
    qed
  qed
qed

lemma tag_tagmask_ok:
  assumes ok: "tagmask_ok (tags (cl s c))" and r: "tag s ui = Some s'"
  shows "tagmask_ok (tags (cl s' c))"
proof (cases "selectedClient (mon s (selectedMonitor s))")
  case None
  with r ok show ?thesis by (simp add: tag_def)
next
  case (Some k)
  let ?s1 = "upd_cl s k (\<lambda>r. r\<lparr>tags := ui AND TAGMASK\<rparr>)"
  show ?thesis
  proof (cases "ui AND TAGMASK = 0")
    case True
    with r ok Some show ?thesis by (simp add: tag_def)
  next
    case False
    with r Some have
      "focus ?s1 None \<bind> (\<lambda>s1. arrange_layout s1 (Some (selectedMonitor s1))) = Some s'"
      by (simp add: tag_def)
    then have t: "tags (cl s' c) = tags (cl ?s1 c)"
      by (rule tags_same_tags[OF focus_arrange_tags_same])
    from False have "tagmask_ok (ui AND TAGMASK)" by (rule tagmask_ok_masked)
    with t ok show ?thesis by (cases "c = k") (simp_all add: upd_cl_def)
  qed
qed

lemma applyrules_loop_mon:
  "applyrules_loop rs class inst s c = Some s' \<Longrightarrow> mon s' = mon s"
proof (induction rs arbitrary: s)
  case Nil
  then show ?case by simp
next
  case (Cons r rs)
  show ?case
  proof (cases "rule_matches r (name (cl s c)) class inst")
    case False
    with Cons show ?thesis by simp
  next
    case True
    with Cons.prems obtain s3 where a: "applyrules_loop rs class inst s3 c = Some s'"
      and b: "mon s3 = mon s"
      by (auto simp: bind_eq_Some_conv Let_def upd_cl_def split: option.splits)
    from Cons.IH[OF a] b show ?thesis by simp
  qed
qed

lemma applyrules_tagmask_ok:
  assumes ok: "\<forall>m. tagsets_ok (mon s m)" and r: "applyrules s c res_class res_name = Some s'"
  shows "tagmask_ok (tags (cl s' c))"
proof -
  let ?s1 = "upd_cl s c (\<lambda>q. q\<lparr>isFloating := False, tags := 0\<rparr>)"
  from r obtain s2 cls ins where a: "applyrules_loop rules cls ins ?s1 c = Some s2"
    and b: "s' = upd_cl s2 c
             (\<lambda>q. q\<lparr>tags :=
                (if tags q AND TAGMASK \<noteq> 0 then tags q AND TAGMASK
                 else tagSet (mon s2 (monitor q)) (selectedTags (mon s2 (monitor q))))\<rparr>)"
    unfolding applyrules_def Let_def by (auto simp only: bind_eq_Some_conv option.inject)
  from applyrules_loop_mon[OF a] have "mon s2 = mon s" by (simp add: upd_cl_def)
  with ok have "tagmask_ok (tagSet (mon s2 (monitor (cl s2 c)))
                  (selectedTags (mon s2 (monitor (cl s2 c)))))"
    by (simp add: tagsets_ok_current)
  then show ?thesis unfolding b
    by (simp add: upd_cl_def tagmask_ok_masked)
qed

lemma sendmon_tagmask_ok:
  assumes okm: "tagsets_ok (mon s m)" and ok: "tagmask_ok (tags (cl s k))"
    and r: "sendmon s c m = Some s'"
  shows "tagmask_ok (tags (cl s' k))"
proof (cases "monitor (cl s c) = m")
  case True
  with r ok show ?thesis by (simp add: sendmon_def)
next
  case False
  with r obtain s1 s2 s5 s7 where
    a: "detach s c = Some s1" and b: "detachStack s1 c = Some s2"
    and d: "attachBelow
              (upd_cl (upd_cl s2 c (\<lambda>r. r\<lparr>monitor := m\<rparr>)) c
                 (\<lambda>r. r\<lparr>tags := tagSet (mon (upd_cl s2 c (\<lambda>r. r\<lparr>monitor := m\<rparr>)) m)
                                  (selectedTags (mon (upd_cl s2 c (\<lambda>r. r\<lparr>monitor := m\<rparr>)) m))\<rparr>))
              c = Some s5"
    and e: "focus (attachStack s5 c) None = Some s7"
    and f: "arrange_layout s7 None = Some s'"
    unfolding sendmon_def Let_def
    by (auto simp only: bind_eq_Some_conv if_False)
  let ?s4 = "upd_cl (upd_cl s2 c (\<lambda>r. r\<lparr>monitor := m\<rparr>)) c
                 (\<lambda>r. r\<lparr>tags := tagSet (mon (upd_cl s2 c (\<lambda>r. r\<lparr>monitor := m\<rparr>)) m)
                                  (selectedTags (mon (upd_cl s2 c (\<lambda>r. r\<lparr>monitor := m\<rparr>)) m))\<rparr>)"
  have t02: "tags_same s s2"
    using detach_tags_same[OF a] detachStack_tags_same[OF b] by (rule tags_same_trans)
  have t4: "tags_same ?s4 s'"
    using attachBelow_tags_same[OF d] attachStack_tags_same[of s5 c]
      focus_tags_same[OF e] arrange_layout_tags_same[OF f]
    by (blast intro: tags_same_trans)
  have "tagmask_ok (tags (cl ?s4 k))"
  proof (cases "k = c")
    case True
    from t02 have "tagSet (mon s2 m) = tagSet (mon s m)"
      "selectedTags (mon s2 m) = selectedTags (mon s m)"
      by (simp_all add: tags_same_def)
    with okm True show ?thesis
      using tagsets_ok_current[of "mon s m"] by (simp add: upd_cl_def)
  next
    case False
    with ok tags_same_tags[OF t02, of k] show ?thesis by (simp add: upd_cl_def)
  qed
  with tags_same_tags[OF t4, of k] show ?thesis by simp
qed

text \<open>
  C8: when toggling would leave the selected client without a tag, \<^verbatim>\<open>toggletag\<close> returns
  the state unchanged (same tags, no focus change, no arrangement).  A client's valid tag
  mask (nonzero, inside \<^verbatim>\<open>TAGMASK\<close>) stays valid under \<^verbatim>\<open>toggletag\<close> and \<^verbatim>\<open>tag\<close>;
  \<^verbatim>\<open>applyrules\<close> gives the new client a valid mask, and \<^verbatim>\<open>sendmon\<close> keeps every client's
  mask valid, when the monitors' tag sets are valid.
\<close>

theorem client_tags_stay_valid:
  "(selectedClient (mon s (selectedMonitor s)) = Some k
      \<longrightarrow> tags (cl s k) XOR (ui AND TAGMASK) = 0 \<longrightarrow> toggletag s ui = Some s)
   \<and> (tagmask_ok (tags (cl s c)) \<longrightarrow> toggletag s ui = Some s1 \<longrightarrow> tagmask_ok (tags (cl s1 c)))
   \<and> (tagmask_ok (tags (cl s c)) \<longrightarrow> tag s ui = Some s2 \<longrightarrow> tagmask_ok (tags (cl s2 c)))
   \<and> ((\<forall>m. tagsets_ok (mon s m)) \<longrightarrow> applyrules s c res_class res_name = Some s3
        \<longrightarrow> tagmask_ok (tags (cl s3 c)))
   \<and> (tagsets_ok (mon s m) \<longrightarrow> tagmask_ok (tags (cl s c)) \<longrightarrow> sendmon s k m = Some s4
        \<longrightarrow> tagmask_ok (tags (cl s4 c)))"
  using toggletag_noop[of s k ui] toggletag_tagmask_ok[of s c ui s1]
    tag_tagmask_ok[of s c ui s2] applyrules_tagmask_ok[of s c res_class res_name s3]
    sendmon_tagmask_ok[of s m c k s4]
  by blast

lemma ex_toggletag: "case toggletag ex_state 3 of
    Some s' \<Rightarrow> tags (cl s' 0) = 2 | None \<Rightarrow> False"
  by code_simp

lemma ex_tag: "case tag ex_state 4 of
    Some s' \<Rightarrow> tags (cl s' 0) = 4 | None \<Rightarrow> False"
  by code_simp

lemma ex_applyrules: "case applyrules ex_state 0 (Some ''Firefox'') None of
    Some s' \<Rightarrow> tags (cl s' 0) = 256 | None \<Rightarrow> False"
  by code_simp

lemma ex_tags_ok: "tagmask_ok (tags (cl ex_state 0))"
  by (simp add: ex_state_def tagmask_ok_def TAGMASK_def ntags_def)

theorem client_tags_stay_valid_witness:
  "selectedClient (mon ex_state (selectedMonitor ex_state)) = Some 0
   \<and> tags (cl ex_state 0) XOR (1 AND TAGMASK) = 0
   \<and> toggletag ex_state 1 = Some ex_state
   \<and> tagmask_ok (tags (cl ex_state 0))
   \<and> (\<exists>s1. toggletag ex_state 3 = Some s1 \<and> tags (cl s1 0) = 2 \<and> tagmask_ok (tags (cl s1 0)))
   \<and> (\<exists>s2. tag ex_state 4 = Some s2 \<and> tags (cl s2 0) = 4 \<and> tagmask_ok (tags (cl s2 0)))
   \<and> (\<forall>m. tagsets_ok (mon ex_state m))
   \<and> (\<exists>s3. applyrules ex_state 0 (Some ''Firefox'') None = Some s3
          \<and> tags (cl s3 0) = 256 \<and> tagmask_ok (tags (cl s3 0)))
   \<and> sendmon ex_state 0 0 = Some ex_state"
proof -
  have sel: "selectedClient (mon ex_state (selectedMonitor ex_state)) = Some 0"
    by (simp add: ex_state_def)
  have z: "tags (cl ex_state 0) XOR (1 AND TAGMASK) = 0"
    by (simp add: ex_state_def TAGMASK_def ntags_def)
  obtain s1 where a: "toggletag ex_state 3 = Some s1" and a2: "tags (cl s1 0) = 2"
    using ex_toggletag by (auto split: option.splits)
  obtain s2 where b: "tag ex_state 4 = Some s2" and b2: "tags (cl s2 0) = 4"
    using ex_tag by (auto split: option.splits)
  obtain s3 where c: "applyrules ex_state 0 (Some ''Firefox'') None = Some s3"
    and c2: "tags (cl s3 0) = 256"
    using ex_applyrules by (auto split: option.splits)
  have d: "sendmon ex_state 0 0 = Some ex_state"
    by (simp add: sendmon_def ex_state_def client0_def)
  have oks: "\<forall>m. tagsets_ok (mon ex_state m)" using ex_tagsets_ok by blast
  from client_tags_stay_valid[of ex_state 0 1 0 s1 s2 "Some ''Firefox''" None s3 0 ex_state]
    sel z have p0: "toggletag ex_state 1 = Some ex_state" by blast
  from client_tags_stay_valid[of ex_state 0 3 0 s1 s2 "Some ''Firefox''" None s3 0 ex_state]
    ex_tags_ok a have p1: "tagmask_ok (tags (cl s1 0))" by blast
  from client_tags_stay_valid[of ex_state 0 4 0 s1 s2 "Some ''Firefox''" None s3 0 ex_state]
    ex_tags_ok b have p2: "tagmask_ok (tags (cl s2 0))" by blast
  from client_tags_stay_valid[of ex_state 0 1 0 s1 s2 "Some ''Firefox''" None s3 0 ex_state]
    oks c have p3: "tagmask_ok (tags (cl s3 0))" by blast
  from sel z p0 ex_tags_ok a a2 p1 b b2 p2 oks c c2 p3 d show ?thesis by blast
qed

subsection \<open>Focus fallback\<close>

lemma lpath_upd_notin: "k \<notin> set ks \<Longrightarrow> lpath (f(k := v)) p ks = lpath f p ks"
  by (induction ks arbitrary: p) auto

lemma lpath_cong: "(\<And>k. k \<in> set ks \<Longrightarrow> g k = f k) \<Longrightarrow> lpath g p ks = lpath f p ks"
  by (induction ks arbitrary: p) auto

lemma stack_visible_path:
  assumes "lpath (snext s) p ks"
  shows "stack_visible s p = Some (find (ISVISIBLE s) ks)"
  using assms
proof (induction ks arbitrary: p)
  case Nil
  then show ?case by (simp add: stack_visible.simps)
next
  case (Cons k ks)
  then have p: "p = Some k" and r: "lpath (snext s) (snext s k) ks"
    by simp_all
  have e: "selectionNext (cl s k) = snext s k" by (simp add: snext_def)
  show ?case
    by (subst stack_visible.simps) (simp add: p e Cons.IH[OF r])
qed

lemma snext_set_snext_Head: "snext (set_snext s (HeadOf m) v) = snext s"
  by (rule ext) (simp add: snext_def set_snext_def upd_mon_def)

lemma snext_set_snext_Link: "snext (set_snext s (LinkOf q) v) = (snext s)(q := v)"
  by (rule ext) (simp add: snext_def set_snext_def upd_cl_def)

lemma get_snext_set_snext_same: "get_snext (set_snext s tc v) tc = v"
  by (cases tc) (simp_all add: get_snext_def set_snext_def upd_mon_def upd_cl_def)

lemma get_snext_set_snext_other:
  "tc \<noteq> tc' \<Longrightarrow> get_snext (set_snext s tc' v) tc = get_snext s tc"
  by (cases tc; cases tc')
     (auto simp: get_snext_def set_snext_def upd_mon_def upd_cl_def)

lemma lpath_set_snext_fresh:
  "tc_fresh tc ks \<Longrightarrow> lpath (snext (set_snext s tc v)) p ks = lpath (snext s) p ks"
  by (cases tc)
     (simp_all add: tc_fresh_def snext_set_snext_Head snext_set_snext_Link lpath_upd_notin)

lemma detachStack_scan_path:
  assumes "lpath (snext s) (get_snext s tc) ks" "distinct ks" "tc_fresh tc ks" "c \<in> set ks"
  shows "\<exists>tc'. detachStack_scan s c tc = Some tc'
           \<and> (tc' = tc \<or> (\<exists>q \<in> set ks. tc' = LinkOf q))
           \<and> lpath (snext (set_snext s tc' (snext s c)))
                (get_snext (set_snext s tc' (snext s c)) tc) (remove1 c ks)"
  using assms
proof (induction ks arbitrary: tc)
  case Nil
  then show ?case by simp
next
  case (Cons k ks)
  from Cons.prems have g: "get_snext s tc = Some k"
    and r: "lpath (snext s) (snext s k) ks"
    and nk: "k \<notin> set ks" and dk: "distinct ks"
    and fr: "tc_fresh tc ks" and frk: "tc \<noteq> LinkOf k"
    by (auto simp: tc_fresh_def split: cref.splits)
  show ?case
  proof (cases "k = c")
    case True
    have sc: "detachStack_scan s c tc = Some tc"
      by (subst detachStack_scan.simps) (simp add: g True)
    have "lpath (snext (set_snext s tc (snext s c))) (snext s c) ks"
      using r True by (simp add: lpath_set_snext_fresh[OF fr])
    with sc True show ?thesis
      by (auto simp: get_snext_set_snext_same)
  next
    case False
    with Cons.prems have cin: "c \<in> set ks" by simp
    have sc: "detachStack_scan s c tc = detachStack_scan s c (LinkOf k)"
      by (subst detachStack_scan.simps) (simp add: g False)
    have pk: "lpath (snext s) (get_snext s (LinkOf k)) ks"
      using r by (simp add: get_snext_def snext_def)
    have frk': "tc_fresh (LinkOf k) ks" using nk by (simp add: tc_fresh_def)
    from Cons.IH[OF pk dk frk' cin] obtain tc' where
      a: "detachStack_scan s c (LinkOf k) = Some tc'"
      and b: "tc' = LinkOf k \<or> (\<exists>q \<in> set ks. tc' = LinkOf q)"
      and p: "lpath (snext (set_snext s tc' (snext s c)))
                (get_snext (set_snext s tc' (snext s c)) (LinkOf k)) (remove1 c ks)"
      by blast
    from b Cons.prems(3) have ne: "tc \<noteq> tc'"
      by (auto simp: tc_fresh_def split: cref.splits)
    have h: "get_snext (set_snext s tc' (snext s c)) tc = Some k"
      using g by (simp add: get_snext_set_snext_other[OF ne])
    have "lpath (snext (set_snext s tc' (snext s c)))
            (get_snext (set_snext s tc' (snext s c)) tc) (k # remove1 c ks)"
      using h p by (simp add: get_snext_def snext_def)
    with sc a b False show ?thesis by auto
  qed
qed

lemma detachStack_returns:
  assumes p: "lpath (snext s) (stack (mon s (monitor (cl s c)))) ks"
    and d: "distinct ks" and cin: "c \<in> set ks"
  shows "\<exists>s'. detachStack s c = Some s' \<and> selectedMonitor s' = selectedMonitor s"
proof -
  let ?m = "monitor (cl s c)"
  have p': "lpath (snext s) (get_snext s (HeadOf ?m)) ks"
    using p by (simp add: get_snext_def)
  from detachStack_scan_path[OF p' d _ cin] obtain tc' where
    a: "detachStack_scan s c (HeadOf ?m) = Some tc'"
    and q: "lpath (snext (set_snext s tc' (snext s c)))
              (get_snext (set_snext s tc' (snext s c)) (HeadOf ?m)) (remove1 c ks)"
    by (auto simp: tc_fresh_def)
  let ?s1 = "set_snext s tc' (selectionNext (cl s c))"
  have m1: "monitor (cl ?s1 c) = ?m"
    by (cases tc') (simp_all add: set_snext_def upd_mon_def upd_cl_def)
  have sm: "selectedMonitor ?s1 = selectedMonitor s"
    by (cases tc') (simp_all add: set_snext_def upd_mon_def upd_cl_def)
  from q have "lpath (snext ?s1) (stack (mon ?s1 ?m)) (remove1 c ks)"
    by (simp add: snext_def get_snext_def)
  then have v: "stack_visible ?s1 (stack (mon ?s1 ?m))
                  = Some (find (ISVISIBLE ?s1) (remove1 c ks))"
    by (rule stack_visible_path)
  show ?thesis
    unfolding detachStack_def
    by (simp add: a Let_def m1 v sm upd_mon_def)
qed

lemma focus_client_returns:
  assumes p: "lpath (snext s) (stack (mon s (selectedMonitor s))) ks"
    and d: "distinct ks" and kin: "k \<in> set ks"
    and own: "monitor (cl s k) = selectedMonitor s"
  shows "\<exists>s'. focus_client s k = Some s' \<and> selectedMonitor s' = selectedMonitor s
           \<and> selectedClient (mon s' (selectedMonitor s')) = Some k"
proof -
  let ?s2 = "if isUrgent (cl s k) then upd_cl s k (\<lambda>r. r\<lparr>isUrgent := False\<rparr>) else s"
  have e: "snext ?s2 = snext s" "mon ?s2 = mon s" "monitor (cl ?s2 k) = monitor (cl s k)"
    "selectedMonitor ?s2 = selectedMonitor s"
    by (auto simp: snext_def upd_cl_def)
  from p own have "lpath (snext ?s2) (stack (mon ?s2 (monitor (cl ?s2 k)))) ks"
    unfolding e by simp
  from detachStack_returns[OF this d kin] obtain s3 where
    a: "detachStack ?s2 k = Some s3" and b: "selectedMonitor s3 = selectedMonitor s"
    unfolding e by blast
  have c: "selectedMonitor (attachStack s3 k) = selectedMonitor s3"
    by (simp add: attachStack_def Let_def upd_mon_def upd_cl_def)
  show ?thesis
    unfolding focus_client_def Let_def
    using own a b c by (cases "isUrgent (cl s k)"; simp add: upd_mon_def)
qed

text \<open>
  C5: when \<^verbatim>\<open>focus\<close> is called with a null or an invisible target, and the stack of the
  selected monitor is the list \<open>ks\<close> of its own clients, the call returns, the selected
  monitor stays, and the selected client becomes the first client of \<open>ks\<close> that is visible:
  the order is the stack order, whatever the client list is.
\<close>

theorem focus_fallback_stack_order:
  assumes fb: "c = None \<or> (\<exists>k. c = Some k \<and> \<not> ISVISIBLE s k)"
    and p: "lpath (snext s) (stack (mon s (selectedMonitor s))) ks"
    and d: "distinct ks"
    and own: "\<forall>k \<in> set ks. monitor (cl s k) = selectedMonitor s"
  shows "\<exists>s'. focus s c = Some s' \<and> selectedMonitor s' = selectedMonitor s
           \<and> selectedClient (mon s' (selectedMonitor s')) = find (ISVISIBLE s) ks"
proof -
  from fb have t: "(if c = None \<or> (case c of Some k \<Rightarrow> \<not> ISVISIBLE s k | None \<Rightarrow> False)
          then stack_visible s (stack (mon s (selectedMonitor s))) else Some c)
        = Some (find (ISVISIBLE s) ks)"
    using stack_visible_path[OF p] by auto
  show ?thesis
  proof (cases "find (ISVISIBLE s) ks")
    case None
    then show ?thesis
      unfolding focus_def by (simp add: t upd_mon_def)
  next
    case (Some k)
    then have kin: "k \<in> set ks"
      by (auto simp: find_Some_iff)
    with own have o: "monitor (cl s k) = selectedMonitor s" by blast
    from focus_client_returns[OF p d kin o] Some show ?thesis
      unfolding focus_def by (simp add: t)
  qed
qed

lemma c5_focus: "case focus c5_state None of
    Some s' \<Rightarrow> selectedClient (mon s' 0) = Some 1 | None \<Rightarrow> False"
  by code_simp

lemma c5_unmanage: "case unmanage c5_state 3 of
    Some s' \<Rightarrow> selectedClient (mon s' 0) = Some 1 \<and> stack (mon s' 0) = Some 1
               \<and> clients (mon s' 0) = Some 2
  | None \<Rightarrow> False"
  by code_simp

theorem focus_fallback_stack_order_witness:
  "lpath (snext c5_state) (stack (mon c5_state (selectedMonitor c5_state))) [3, 1, 2]
   \<and> lpath (cnext c5_state) (clients (mon c5_state (selectedMonitor c5_state))) [2, 1, 3]
   \<and> filter (ISVISIBLE c5_state) [3, 1, 2] = [1, 2]
   \<and> (\<exists>s'. focus c5_state None = Some s' \<and> selectedClient (mon s' 0) = Some 1)
   \<and> (\<exists>s'. unmanage c5_state 3 = Some s' \<and> selectedClient (mon s' 0) = Some 1)"
proof -
  have p: "lpath (snext c5_state) (stack (mon c5_state (selectedMonitor c5_state))) [3, 1, 2]"
    by (simp add: c5_state_def snext_def)
  have q: "lpath (cnext c5_state) (clients (mon c5_state (selectedMonitor c5_state))) [2, 1, 3]"
    by (simp add: c5_state_def cnext_def)
  have own: "\<forall>k \<in> set [3, 1, 2]. monitor (cl c5_state k) = selectedMonitor c5_state"
    by (simp add: c5_state_def client0_def)
  have v: "filter (ISVISIBLE c5_state) [3, 1, 2] = [1, 2]"
    by (simp add: c5_state_def ISVISIBLE_def ISVISIBLEONTAG_def client0_def createMonitor_def
        monitor0_def)
  then have f: "find (ISVISIBLE c5_state) [3, 1, 2] = Some 1"
    by (simp add: c5_state_def ISVISIBLE_def ISVISIBLEONTAG_def client0_def createMonitor_def
        monitor0_def)
  from focus_fallback_stack_order[of None c5_state "[3, 1, 2]", OF _ p _ own] f
  have a: "\<exists>s'. focus c5_state None = Some s' \<and> selectedClient (mon s' 0) = Some 1"
    by (auto simp: c5_state_def)
  have b: "\<exists>s'. unmanage c5_state 3 = Some s' \<and> selectedClient (mon s' 0) = Some 1"
    using c5_unmanage by (auto split: option.splits)
  from p q v a b show ?thesis by blast
qed

subsection \<open>Dragging a tiled client\<close>






subsection \<open>Clients that an arrangement leaves in place\<close>





















subsection \<open>Fullscreen\<close>
















end
